theory Spec2Isabelle
  imports Main "HOL-Library.Word"
begin

unbundle bit_operations_syntax

section \<open>Strings and numbers as the TypeScript source prints them\<close>

text \<open>
  Strings are lists of 8-bit code units; numbers that the bus handles (timestamps in
  seconds, event kinds, counts) are integers, printed by template literals in plain decimal.
\<close>

definition digit_char :: "nat \<Rightarrow> char" where
  "digit_char d = char_of (48 + d)"

fun show_nat :: "nat \<Rightarrow> string" where
  "show_nat n = (if n < 10 then [digit_char n] else show_nat (n div 10) @ [digit_char (n mod 10)])"

declare show_nat.simps [simp del]

definition show_int :: "int \<Rightarrow> string" where
  "show_int i = (if i < 0 then CHR ''-'' # show_nat (nat (- i)) else show_nat (nat i))"

text \<open>\<^verbatim>\<open>xs.join(sep)\<close>\<close>

fun join :: "string \<Rightarrow> string list \<Rightarrow> string" where
  "join sep [] = []"
| "join sep [x] = x"
| "join sep (x # y # ys) = x @ sep @ join sep (y # ys)"

section \<open>Events, rumors and the persisted state (state-store.ts)\<close>

text \<open>
  A JavaScript number where the source compares and maximises timestamps: an integer number
  of seconds, or \<^verbatim>\<open>NaN\<close>. Every comparison with \<^verbatim>\<open>NaN\<close> is false, and \<^verbatim>\<open>Math.max\<close> of
  anything with \<^verbatim>\<open>NaN\<close> is \<^verbatim>\<open>NaN\<close>.
\<close>

datatype js_number = Num int | NaN

definition js_gt :: "js_number \<Rightarrow> js_number \<Rightarrow> bool" where
  "js_gt a b = (case (a, b) of (Num x, Num y) \<Rightarrow> x > y | _ \<Rightarrow> False)"

definition js_le :: "js_number \<Rightarrow> js_number \<Rightarrow> bool" where
  "js_le a b = (case (a, b) of (Num x, Num y) \<Rightarrow> x \<le> y | _ \<Rightarrow> False)"

definition Math_max :: "js_number \<Rightarrow> js_number \<Rightarrow> js_number" where
  "Math_max a b = (case (a, b) of (Num x, Num y) \<Rightarrow> Num (max x y) | _ \<Rightarrow> NaN)"

text \<open>A relay event as the handler receives it (nostr-tools \<^verbatim>\<open>Event\<close>).\<close>

record event =
  event_id :: string
  event_kind :: int
  event_pubkey :: string
  event_created_at :: int
  event_tags :: "string list list"
  event_content :: string
  event_sig :: string

text \<open>
  The rumor that \<^verbatim>\<open>unwrapEvent\<close> yields is the JSON that the sender encrypted, cast to
  \<^verbatim>\<open>Event\<close> without validation. The handler reads \<^verbatim>\<open>rumor.id\<close> and \<^verbatim>\<open>rumor.content\<close>
  as fields that may be missing, so both are optional here. The field \<^verbatim>\<open>rumor.created_at\<close>
  may hold any value or be missing; the handler uses it in two ways, and the value is
  modelled by what it gives in each: the number it converts to where the handler compares
  and maximises it (\<^verbatim>\<open>NaN\<close> for a missing field and for a text that is not numeric), and
  the text it prints as in a template literal (\<^verbatim>\<open>undefined\<close> for a missing field). A
  timestamp as the protocol wants it is a whole number of seconds, printed in decimal.
\<close>

datatype js_value = JsValue js_number string

fun to_number :: "js_value \<Rightarrow> js_number" where
  "to_number (JsValue n t) = n"

fun to_text :: "js_value \<Rightarrow> string" where
  "to_text (JsValue n t) = t"

definition seconds :: "int \<Rightarrow> js_value" where
  "seconds t = JsValue (Num t) (show_int t)"

record rumor =
  rumor_id :: "string option"
  rumor_kind :: int
  rumor_pubkey :: string
  rumor_created_at :: js_value
  rumor_content :: "string option"

text \<open>
  \<^verbatim>\<open>interface NostrBusState\<close>, as the state file holds it. JSON has no \<^verbatim>\<open>NaN\<close>:
  \<^verbatim>\<open>JSON.stringify\<close> writes it as \<^verbatim>\<open>null\<close>, which reads back as a missing value.
\<close>

record NostrBusState =
  lastProcessedAt :: int
  gatewayStartedAt :: int
  recentEventIds :: "string list"
  recentFingerprints :: "string list option"
  lastRumorAt :: "int option"

definition stringify_number :: "js_number \<Rightarrow> int option" where
  "stringify_number a = (case a of Num x \<Rightarrow> Some x | NaN \<Rightarrow> None)"

text \<open>
  \<^verbatim>\<open>if (state?.lastProcessedAt) return state.lastProcessedAt; return gatewayStartedAt;\<close>
  The test is JavaScript truthiness: a missing state and a watermark of 0 both fall through.
\<close>

definition computeSinceTimestamp :: "NostrBusState option \<Rightarrow> int \<Rightarrow> int" where
  "computeSinceTimestamp state gatewayStarted =
     (case state of
        None \<Rightarrow> gatewayStarted
      | Some st \<Rightarrow> if lastProcessedAt st \<noteq> 0 then lastProcessedAt st else gatewayStarted)"

definition STARTUP_LOOKBACK_SEC :: int where
  "STARTUP_LOOKBACK_SEC = 2 * 24 * 60 * 60"

definition MAX_PERSISTED_EVENT_IDS :: nat where
  "MAX_PERSISTED_EVENT_IDS = 5000"

text \<open>\<^verbatim>\<open>xs.slice(-n)\<close> for a positive n: the last n elements, or all of them.\<close>

definition slice_last :: "nat \<Rightarrow> 'a list \<Rightarrow> 'a list" where
  "slice_last n xs = drop (length xs - n) xs"

section \<open>The process-wide deduplication ledger (nip17-bus.ts, globalDedup)\<close>

text \<open>
  \<^verbatim>\<open>const globalSeen = new Set<string>(); const GLOBAL_SEEN_MAX = 20000;\<close>
  A JavaScript \<^verbatim>\<open>Set\<close> iterates in insertion order and holds no duplicates, so the
  ledger is a list of keys, oldest first; \<^verbatim>\<open>add\<close> of a new key appends it.
\<close>

type_synonym ledger = "string list"

definition GLOBAL_SEEN_MAX :: nat where
  "GLOBAL_SEEN_MAX = 20000"

text \<open>
  \<^verbatim>\<open>Math.floor(GLOBAL_SEEN_MAX * 0.8)\<close>: the product is the double 16000, so the floor is
  the integer four fifths of the cap.
\<close>

definition GLOBAL_SEEN_KEEP :: nat where
  "GLOBAL_SEEN_KEEP = (GLOBAL_SEEN_MAX * 8) div 10"

text \<open>
  The trimming loop
  \<^verbatim>\<open>for (const id of globalSeen) { if (deleted >= toDelete) break; globalSeen.delete(id); deleted++; }\<close>
  walks the set from its oldest key and deletes the key it stands on.
\<close>

fun trim_loop :: "nat \<Rightarrow> nat \<Rightarrow> ledger \<Rightarrow> ledger" where
  "trim_loop toDelete deleted [] = []"
| "trim_loop toDelete deleted (k # ks) =
     (if deleted \<ge> toDelete then k # ks else trim_loop toDelete (Suc deleted) ks)"

text \<open>
  \<^verbatim>\<open>globalDedup(key)\<close> returns whether the key was already seen, and the updated set.
\<close>

definition globalDedup :: "string \<Rightarrow> ledger \<Rightarrow> bool \<times> ledger" where
  "globalDedup key globalSeen =
     (if key \<in> set globalSeen then (True, globalSeen)
      else
        let added = globalSeen @ [key] in
        if length added > GLOBAL_SEEN_MAX
        then (False, trim_loop (length added - GLOBAL_SEEN_KEEP) 0 added)
        else (False, added))"

text \<open>The ledger after a sequence of check-and-insert calls on the empty module-level set.\<close>

definition ledger_after :: "string list \<Rightarrow> ledger" where
  "ledger_after keys = foldl (\<lambda>seen k. snd (globalDedup k seen)) [] keys"

section \<open>The event bus (nip17-bus.ts, startNip17Bus)\<close>

text \<open>
  What the bus is started with, after \<^verbatim>\<open>validatePrivateKey\<close> and \<^verbatim>\<open>getPublicKey\<close>
  have produced the key pair: its own public key, the relays, whether the optional
  \<^verbatim>\<open>onError\<close> callback was given, and \<^verbatim>\<open>unwrapEvent(event, sk)\<close> of nostr-tools, which
  either throws (\<open>Inl\<close> the error) or yields the rumor.
\<close>

record bus_env =
  pk :: string
  relays :: "string list"
  onError_given :: bool
  unwrapEvent :: "event \<Rightarrow> string + rumor"

text \<open>
  What the bus does to the outside: it invokes \<^verbatim>\<open>onMessage(rumor.pubkey, rumor.content, replyFn)\<close>
  (recorded with the gift wrap and the rumor that caused the call), it reports through
  \<^verbatim>\<open>onError(error, context)\<close>, and it publishes an event to a relay.
\<close>

datatype effect =
    OnMessage event rumor
  | OnError string string
  | Publish string event

text \<open>\<^verbatim>\<open>onError?.(err, context)\<close>: nothing happens when the callback was not given.\<close>

definition report :: "bus_env \<Rightarrow> string \<Rightarrow> string \<Rightarrow> effect list" where
  "report env err ctx = (if onError_given env then [OnError err ctx] else [])"

text \<open>
  The account's state file: absent, holding a record, or holding what is left of writes that
  were cut short or ran into each other. \<^verbatim>\<open>readNostrBusState\<close> catches every error of
  reading and parsing and returns \<^verbatim>\<open>null\<close>.
\<close>

datatype state_file = NoFile | Stored NostrBusState | Garbled

definition readNostrBusState :: "state_file \<Rightarrow> NostrBusState option" where
  "readNostrBusState f = (case f of Stored st \<Rightarrow> Some st | _ \<Rightarrow> None)"

text \<open>
  The object that \<^verbatim>\<open>persistStateNow\<close> hands to \<^verbatim>\<open>writeNostrBusState\<close>. The numbers are
  copied when the object is built; \<^verbatim>\<open>recentEventIds\<close> is a reference to the array that the
  closure variable points to at that moment, here the address of the array in the store
  of arrays.
\<close>

record write_request =
  wq_lastProcessedAt :: int
  wq_gatewayStartedAt :: int
  wq_recentEventIds :: nat
  wq_lastRumorAt :: js_number

text \<open>
  The state of a running bus: the module-level ledger; the closure variables
  \<^verbatim>\<open>lastProcessedAt\<close>, \<^verbatim>\<open>lastRumorAt\<close>, \<^verbatim>\<open>gatewayStartedAt\<close> and \<^verbatim>\<open>recentEventIds\<close>,
  the last one an address into \<open>arrays\<close>, the arrays of identifiers that exist; the handler
  invocations suspended at \<^verbatim>\<open>await onMessage(...)\<close>; the calls of \<^verbatim>\<open>writeNostrBusState\<close>
  suspended at \<^verbatim>\<open>await mkdir(...)\<close>; the records already serialised whose
  \<^verbatim>\<open>writeFile\<close> has not ended; and the state file.
\<close>

record bus =
  globalSeen :: ledger
  var_lastProcessedAt :: int
  var_lastRumorAt :: js_number
  arrays :: "string list list"
  var_recentEventIds :: nat
  var_gatewayStartedAt :: int
  pending :: "(event \<times> rumor) list"
  awaiting_mkdir :: "write_request list"
  writing :: "NostrBusState list"
  disk :: state_file

text \<open>The array at an address; every address that the bus holds is in the store.\<close>

definition array_at :: "string list list \<Rightarrow> nat \<Rightarrow> string list" where
  "array_at store a = (if a < length store then store ! a else [])"

text \<open>
  \<^verbatim>\<open>persistStateNow()\<close>: \<^verbatim>\<open>writeNostrBusState({...}).catch((err) => onError?.(err, "persist state"))\<close>.
  The call builds the object, starts \<^verbatim>\<open>mkdir\<close> and returns; nothing is serialised or
  written yet, and nothing waits for an earlier write.
\<close>

definition persistStateNow :: "bus \<Rightarrow> bus" where
  "persistStateNow s =
     s\<lparr>awaiting_mkdir := awaiting_mkdir s @
          [\<lparr>wq_lastProcessedAt = var_lastProcessedAt s,
            wq_gatewayStartedAt = var_gatewayStartedAt s,
            wq_recentEventIds = var_recentEventIds s,
            wq_lastRumorAt = var_lastRumorAt s\<rparr>]\<rparr>"

text \<open>
  \<^verbatim>\<open>scheduleStatePersist(eventCreatedAt, eventId)\<close>: advance the watermark;
  \<^verbatim>\<open>recentEventIds.push(eventId)\<close> changes the array in place;
  \<^verbatim>\<open>recentEventIds = recentEventIds.slice(-MAX_PERSISTED_EVENT_IDS)\<close> makes a new array of
  the last 5000 identifiers and points the variable to it, leaving the old array as it is;
  then \<^verbatim>\<open>persistStateNow()\<close>.
\<close>

definition scheduleStatePersist :: "int \<Rightarrow> string \<Rightarrow> bus \<Rightarrow> bus" where
  "scheduleStatePersist eventCreatedAt eventId s =
     (let a = var_recentEventIds s;
          pushed = array_at (arrays s) a @ [eventId];
          store1 = (arrays s)[a := pushed];
          s1 = s\<lparr>var_lastProcessedAt := max (var_lastProcessedAt s) eventCreatedAt,
                 arrays := store1\<rparr>;
          s2 = (if length pushed > MAX_PERSISTED_EVENT_IDS
                then s1\<lparr>arrays := store1 @ [slice_last MAX_PERSISTED_EVENT_IDS pushed],
                        var_recentEventIds := length store1\<rparr>
                else s1)
      in persistStateNow s2)"

text \<open>
  The rest of \<^verbatim>\<open>writeNostrBusState\<close> for the n-th suspended call, once \<^verbatim>\<open>mkdir\<close> has
  ended. When \<^verbatim>\<open>mkdir\<close> is rejected the call is rejected and the error is reported.
  Otherwise \<^verbatim>\<open>JSON.stringify(data, null, 2)\<close> serialises the object now, reading the array
  that the object refers to as it is at this moment, and \<^verbatim>\<open>writeFile\<close> begins.
\<close>

definition mkdirDone :: "bus_env \<Rightarrow> nat \<Rightarrow> string option \<Rightarrow> bus \<Rightarrow> bus \<times> effect list" where
  "mkdirDone env n outcome s =
     (if n \<ge> length (awaiting_mkdir s) then (s, [])
      else
        let rq = awaiting_mkdir s ! n;
            s1 = s\<lparr>awaiting_mkdir := take n (awaiting_mkdir s) @ drop (Suc n) (awaiting_mkdir s)\<rparr>
        in (case outcome of
              Some err \<Rightarrow> (s1, report env err ''persist state'')
            | None \<Rightarrow>
                (s1\<lparr>writing := writing s1 @
                       [\<lparr>lastProcessedAt = wq_lastProcessedAt rq,
                         gatewayStartedAt = wq_gatewayStartedAt rq,
                         recentEventIds = array_at (arrays s1) (wq_recentEventIds rq),
                         recentFingerprints = None,
                         lastRumorAt = stringify_number (wq_lastRumorAt rq)\<rparr>]\<rparr>, [])))"

text \<open>
  How a \<^verbatim>\<open>writeFile\<close> ends: the file holds the serialised record; or the file is left
  unreadable (\<^verbatim>\<open>writeFile\<close> is not atomic and the source runs the writes of one account
  side by side); or the write is rejected with an error, which is reported.
\<close>

datatype write_end = Landed | Mangled | Refused string

definition writeDone :: "bus_env \<Rightarrow> nat \<Rightarrow> write_end \<Rightarrow> bus \<Rightarrow> bus \<times> effect list" where
  "writeDone env n outcome s =
     (if n \<ge> length (writing s) then (s, [])
      else
        let st = writing s ! n;
            s1 = s\<lparr>writing := take n (writing s) @ drop (Suc n) (writing s)\<rparr>
        in (case outcome of
              Landed \<Rightarrow> (s1\<lparr>disk := Stored st\<rparr>, [])
            | Mangled \<Rightarrow> (s1\<lparr>disk := Garbled\<rparr>, [])
            | Refused err \<Rightarrow> (s1, report env err ''persist state'')))"

text \<open>
  The rumor-level ledger key:
  \<^verbatim>\<open>rumor.id ? `rumor:${rumor.id}` : `rumor:${rumor.pubkey}:${rumor.created_at}:${rumor.content?.slice(0, 32)}`\<close>.
  A missing id and the empty id are both falsy; a missing content prints as \<^verbatim>\<open>undefined\<close>.
\<close>

definition fallback_fingerprint :: "rumor \<Rightarrow> string" where
  "fallback_fingerprint r =
     ''rumor:'' @ rumor_pubkey r @ '':'' @ to_text (rumor_created_at r) @ '':'' @
       (case rumor_content r of None \<Rightarrow> ''undefined'' | Some c \<Rightarrow> take 32 c)"

definition rumorId :: "rumor \<Rightarrow> string" where
  "rumorId r =
     (case rumor_id r of
        None \<Rightarrow> fallback_fingerprint r
      | Some i \<Rightarrow> if i \<noteq> [] then ''rumor:'' @ i else fallback_fingerprint r)"

definition gwKey :: "event \<Rightarrow> string" where
  "gwKey ev = ''gw:'' @ event_id ev"

text \<open>
  \<^verbatim>\<open>handleEvent(event)\<close> up to its only suspension point. An async function runs without
  interruption until its first \<^verbatim>\<open>await\<close>, so everything from the gift-wrap dedup to the
  call of \<^verbatim>\<open>onMessage\<close> is one step; the invocation then waits in \<open>pending\<close>. The guard
  \<^verbatim>\<open>lastRumorAt > 0 && rumor.created_at <= lastRumorAt\<close> compares JavaScript numbers.
\<close>

definition handleEvent :: "bus_env \<Rightarrow> event \<Rightarrow> bus \<Rightarrow> bus \<times> effect list" where
  "handleEvent env ev s =
     (case globalDedup (gwKey ev) (globalSeen s) of
        (True, _) \<Rightarrow> (s, [])
      | (False, seen1) \<Rightarrow>
          let s1 = s\<lparr>globalSeen := seen1\<rparr> in
          if event_kind ev \<noteq> 1059 then (s1, [])
          else
            (case unwrapEvent env ev of
               Inl err \<Rightarrow> (s1, report env err (''unwrap gift wrap '' @ event_id ev))
             | Inr r \<Rightarrow>
                 if rumor_kind r \<noteq> 14 then (s1, [])
                 else
                   (case globalDedup (rumorId r) seen1 of
                      (True, _) \<Rightarrow> (s1, [])
                    | (False, seen2) \<Rightarrow>
                        let s2 = s1\<lparr>globalSeen := seen2\<rparr> in
                        if rumor_pubkey r = pk env then (s2, [])
                        else if js_gt (var_lastRumorAt s2) (Num 0) \<and>
                                js_le (to_number (rumor_created_at r)) (var_lastRumorAt s2)
                        then (s2, [])
                        else (s2\<lparr>pending := pending s2 @ [(ev, r)]\<rparr>, [OnMessage ev r]))))"

text \<open>
  How a suspended invocation ends: the promise of \<^verbatim>\<open>onMessage\<close> resolves, or it rejects
  with an error.
\<close>

datatype settlement = Resolved | Rejected string

text \<open>
  The rest of \<^verbatim>\<open>handleEvent\<close> for the i-th suspended invocation:
  \<^verbatim>\<open>lastRumorAt = Math.max(lastRumorAt, rumor.created_at); scheduleStatePersist(event.created_at, event.id);\<close>
  after a resolved callback, \<^verbatim>\<open>onError?.(err, `event ${event.id}`)\<close> after a rejected one.
  There is nothing to resume when no such invocation is waiting.
\<close>

definition resumeEvent :: "bus_env \<Rightarrow> nat \<Rightarrow> settlement \<Rightarrow> bus \<Rightarrow> bus \<times> effect list" where
  "resumeEvent env i outcome s =
     (if i \<ge> length (pending s) then (s, [])
      else
        let (ev, r) = pending s ! i;
            s1 = s\<lparr>pending := take i (pending s) @ drop (Suc i) (pending s)\<rparr>
        in (case outcome of
              Rejected err \<Rightarrow> (s1, report env err (''event '' @ event_id ev))
            | Resolved \<Rightarrow>
                (scheduleStatePersist (event_created_at ev) (event_id ev)
                   (s1\<lparr>var_lastRumorAt :=
                         Math_max (var_lastRumorAt s1) (to_number (rumor_created_at r))\<rparr>), [])))"

text \<open>
  What can happen to a running bus, and a run of such happenings in order: a relay delivers
  an event; the callback of a suspended invocation settles; the \<^verbatim>\<open>mkdir\<close> of a suspended
  state write ends; a \<^verbatim>\<open>writeFile\<close> ends; the owner calls \<^verbatim>\<open>close()\<close>, which writes the
  state once more.
\<close>

datatype input =
    Deliver event
  | Settle nat settlement
  | MkdirDone nat "string option"
  | WriteDone nat write_end
  | Close

fun step :: "bus_env \<Rightarrow> input \<Rightarrow> bus \<Rightarrow> bus \<times> effect list" where
  "step env (Deliver ev) s = handleEvent env ev s"
| "step env (Settle i outcome) s = resumeEvent env i outcome s"
| "step env (MkdirDone n outcome) s = mkdirDone env n outcome s"
| "step env (WriteDone n outcome) s = writeDone env n outcome s"
| "step env Close s = (persistStateNow s, [])"

fun run :: "bus_env \<Rightarrow> input list \<Rightarrow> bus \<Rightarrow> bus \<times> effect list" where
  "run env [] s = (s, [])"
| "run env (i # ins) s =
     (let (s1, out1) = step env i s; (s2, out2) = run env ins s1 in (s2, out1 @ out2))"

text \<open>
  The subscription filter \<^verbatim>\<open>{ kinds: [1059], "#p": [pk], since }\<close> and the startup
  sequence of \<^verbatim>\<open>startNip17Bus\<close>: read the state, compute \<open>since\<close>, seed the ledger with
  the persisted ids, write the refreshed record and wait for the write (an error of this
  awaited write aborts the start, with the ledger already seeded), initialise the closure
  variables, subscribe. The closure's array is a fresh one:
  \<^verbatim>\<open>(state?.recentEventIds ?? []).slice(-MAX_PERSISTED_EVENT_IDS)\<close>.
\<close>

record sub_filter =
  kinds :: "int list"
  p_tag :: "string list"
  since :: int

datatype start_result = StartFailed string ledger | Started bus sub_filter

definition seed_ledger :: "NostrBusState option \<Rightarrow> ledger \<Rightarrow> ledger" where
  "seed_ledger state seen =
     (case state of
        None \<Rightarrow> seen
      | Some st \<Rightarrow> foldl (\<lambda>acc i. snd (globalDedup (''gw:'' @ i) acc)) seen (recentEventIds st))"

definition startNip17Bus ::
  "bus_env \<Rightarrow> int \<Rightarrow> NostrBusState option \<Rightarrow> string option \<Rightarrow> ledger \<Rightarrow> start_result" where
  "startNip17Bus env gatewayStarted state wr seen =
     (let baseSince = computeSinceTimestamp state gatewayStarted;
          since_v = max 0 (baseSince - STARTUP_LOOKBACK_SEC);
          seen1 = seed_ledger state seen;
          lpa = (case state of None \<Rightarrow> gatewayStarted | Some st \<Rightarrow> lastProcessedAt st);
          ids = (case state of None \<Rightarrow> [] | Some st \<Rightarrow> recentEventIds st);
          lra = (case state of None \<Rightarrow> 0
                 | Some st \<Rightarrow> (case lastRumorAt st of None \<Rightarrow> 0 | Some t \<Rightarrow> t))
      in case wr of
           Some err \<Rightarrow> StartFailed err seen1
         | None \<Rightarrow>
             Started
               \<lparr>globalSeen = seen1,
                var_lastProcessedAt = lpa,
                var_lastRumorAt = Num lra,
                arrays = [slice_last MAX_PERSISTED_EVENT_IDS ids],
                var_recentEventIds = 0,
                var_gatewayStartedAt = gatewayStarted,
                pending = [],
                awaiting_mkdir = [],
                writing = [],
                disk = Stored \<lparr>lastProcessedAt = lpa, gatewayStartedAt = gatewayStarted,
                                recentEventIds = ids, recentFingerprints = None,
                                lastRumorAt = Some lra\<rparr>\<rparr>
               \<lparr>kinds = [1059], p_tag = [pk env], since = since_v\<rparr>)"

text \<open>
  The keys that one step passes to \<^verbatim>\<open>globalDedup\<close>, in order: a delivery checks the
  gift-wrap key and, when that key is new and the event unwraps to a chat message, the
  rumor key; no other step touches the ledger. The keys of a whole run follow.
\<close>

definition dedup_calls :: "bus_env \<Rightarrow> input \<Rightarrow> bus \<Rightarrow> string list" where
  "dedup_calls env i s =
     (case i of
        Deliver ev \<Rightarrow>
          if gwKey ev \<in> set (globalSeen s) \<or> event_kind ev \<noteq> 1059 then [gwKey ev]
          else
            (case unwrapEvent env ev of
               Inl err \<Rightarrow> [gwKey ev]
             | Inr r \<Rightarrow> if rumor_kind r \<noteq> 14 then [gwKey ev] else [gwKey ev, rumorId r])
      | _ \<Rightarrow> [])"

fun ledger_calls :: "bus_env \<Rightarrow> input list \<Rightarrow> bus \<Rightarrow> string list" where
  "ledger_calls env [] s = []"
| "ledger_calls env (i # ins) s = dedup_calls env i s @ ledger_calls env ins (fst (step env i s))"

text \<open>
  A key is not evicted by a sequence of check-and-insert calls when every call that finds
  the key in the ledger leaves it there. (A key leaves the ledger in no other way than by
  the trimming of \<^verbatim>\<open>globalDedup\<close>.)
\<close>

fun not_evicted :: "string \<Rightarrow> string list \<Rightarrow> ledger \<Rightarrow> bool" where
  "not_evicted k [] seen = True"
| "not_evicted k (key # keys) seen =
     ((k \<in> set seen \<longrightarrow> k \<in> set (snd (globalDedup key seen))) \<and>
      not_evicted k keys (snd (globalDedup key seen)))"

section \<open>Sending (nip17-bus.ts, sendNip17Dm)\<close>

text \<open>
  How a promise settles: fulfilled, or rejected with a reason.
\<close>

datatype settled = Fulfilled | RejectedWith string

text \<open>
  \<^verbatim>\<open>pool.publish(relays, event)\<close> of nostr-tools 2 (\<^verbatim>\<open>SimplePool\<close>) sends the event to each
  of the relays and returns an array with one promise for each of them; \<open>outcome\<close> is how
  the promise for a relay settles.
\<close>

definition pool_publish :: "(string \<Rightarrow> event \<Rightarrow> settled) \<Rightarrow> string list \<Rightarrow> event \<Rightarrow> settled list" where
  "pool_publish outcome rs ev = map (\<lambda>relay. outcome relay ev) rs"

text \<open>
  A value handed to \<^verbatim>\<open>Promise.allSettled\<close>: a promise, or an array of promises.
  \<^verbatim>\<open>Promise.allSettled\<close> waits for the promises among its elements; an element that is no
  promise, such as an array, counts as fulfilled with itself, whatever it holds.
\<close>

datatype js_element = APromise settled | AnArray "settled list"

definition allSettled :: "js_element list \<Rightarrow> settled list" where
  "allSettled vs = map (\<lambda>v. case v of APromise st \<Rightarrow> st | AnArray ps \<Rightarrow> Fulfilled) vs"

text \<open>
  \<^verbatim>\<open>sendNip17Dm(pool, sk, toPubkey, text, relays, onError)\<close>. The nostr-tools calls
  \<^verbatim>\<open>createRumor\<close>, \<^verbatim>\<open>createSeal\<close>, \<^verbatim>\<open>createWrap\<close> are the parameter \<open>createWraps\<close>, which
  throws (\<open>Inl\<close>) or yields the wrap for the recipient and the wrap for the sender;
  \<open>outcome n\<close> is how the relay answers the n-th call of \<^verbatim>\<open>pool.publish([relay], wrap)\<close>.
  The source pushes what \<^verbatim>\<open>pool.publish\<close> returns, the array, to \<^verbatim>\<open>publishPromises\<close>.
  The result is \<open>Inl\<close> when the send throws, otherwise the effects in order.
\<close>

definition publishAttempts :: "string list \<Rightarrow> event \<Rightarrow> event \<Rightarrow> (string \<times> event) list" where
  "publishAttempts rs wrapForRecipient wrapForSelf =
     concat (map (\<lambda>wrap. map (\<lambda>relay. (relay, wrap)) rs) [wrapForRecipient, wrapForSelf])"

definition publishPromises ::
  "(nat \<Rightarrow> string \<Rightarrow> event \<Rightarrow> settled) \<Rightarrow> (string \<times> event) list \<Rightarrow> js_element list" where
  "publishPromises outcome attempts =
     map (\<lambda>(n, (relay, wrap)). AnArray (pool_publish (outcome n) [relay] wrap))
       (zip [0..<length attempts] attempts)"

fun reasons :: "settled list \<Rightarrow> string list" where
  "reasons [] = []"
| "reasons (Fulfilled # rs) = reasons rs"
| "reasons (RejectedWith why # rs) = why # reasons rs"

definition publishErrorMessage :: "settled list \<Rightarrow> string" where
  "publishErrorMessage results =
     ''Publish: '' @ show_nat (length results - length (reasons results)) @ ''/'' @
       show_nat (length results) @ '' ok, failures: '' @ join '', '' (reasons results)"

definition sendNip17Dm ::
  "bus_env \<Rightarrow> (string \<Rightarrow> string \<Rightarrow> string + event \<times> event) \<Rightarrow>
   (nat \<Rightarrow> string \<Rightarrow> event \<Rightarrow> settled) \<Rightarrow> string \<Rightarrow> string \<Rightarrow> string + effect list" where
  "sendNip17Dm env createWraps outcome toPubkey text =
     (case createWraps toPubkey text of
        Inl err \<Rightarrow> Inl err
      | Inr (wrapForRecipient, wrapForSelf) \<Rightarrow>
          let attempts = publishAttempts (relays env) wrapForRecipient wrapForSelf;
              results = allSettled (publishPromises outcome attempts)
          in Inr (map (\<lambda>(relay, wrap). Publish relay wrap) attempts @
                  (if length (reasons results) > 0
                   then report env (publishErrorMessage results) ''publish'' else [])))"

text \<open>
  The older copy of the bus, src/nip17-bus.ts, publishes in the same way but reports
  differently: a count summary after every send, and a second report when the list of
  failures is not empty.
\<close>

definition sendNip17Dm_legacy ::
  "bus_env \<Rightarrow> (string \<Rightarrow> string \<Rightarrow> string + event \<times> event) \<Rightarrow>
   (nat \<Rightarrow> string \<Rightarrow> event \<Rightarrow> settled) \<Rightarrow> string \<Rightarrow> string \<Rightarrow> string + effect list" where
  "sendNip17Dm_legacy env createWraps outcome toPubkey text =
     (case createWraps toPubkey text of
        Inl err \<Rightarrow> Inl err
      | Inr (wrapForRecipient, wrapForSelf) \<Rightarrow>
          let attempts = publishAttempts (relays env) wrapForRecipient wrapForSelf;
              results = allSettled (publishPromises outcome attempts)
          in Inr (map (\<lambda>(relay, wrap). Publish relay wrap) attempts @
                  report env
                    (''Publish results: '' @ show_nat (length results) @ '' total, '' @
                     show_nat (length (filter (\<lambda>r. r = Fulfilled) results)) @ '' success, '' @
                     show_nat (length (reasons results)) @ '' failed'') ''publish'' @
                  (if length (reasons results) > 0
                   then report env
                          (''Failed to publish '' @ show_nat (length (reasons results)) @
                           '' messages: '' @ join '', '' (reasons results)) ''publish''
                   else [])))"

text \<open>What a list of effects contains.\<close>

fun publishes :: "effect list \<Rightarrow> (string \<times> event) list" where
  "publishes [] = []"
| "publishes (Publish relay wrap # es) = (relay, wrap) # publishes es"
| "publishes (_ # es) = publishes es"

fun errors :: "effect list \<Rightarrow> (string \<times> string) list" where
  "errors [] = []"
| "errors (OnError err ctx # es) = (err, ctx) # errors es"
| "errors (_ # es) = errors es"

fun callbacks :: "effect list \<Rightarrow> (event \<times> rumor) list" where
  "callbacks [] = []"
| "callbacks (OnMessage ev r # es) = (ev, r) # callbacks es"
| "callbacks (_ # es) = callbacks es"

text \<open>How often the message callback was invoked for a gift wrap with the given id.\<close>

definition invocations_for_event :: "string \<Rightarrow> effect list \<Rightarrow> nat" where
  "invocations_for_event i es = length (filter (\<lambda>(ev, r). event_id ev = i) (callbacks es))"

text \<open>How often the message callback was invoked for the given gift wrap.\<close>

definition invocations_of :: "event \<Rightarrow> effect list \<Rightarrow> nat" where
  "invocations_of ev es = length (filter (\<lambda>(e, r). e = ev) (callbacks es))"

text \<open>
  Two rumors are the same message in the words of the specification: the same rumor
  identifier, or, when neither carries one, the same sender, timestamp and first 32
  characters of content. The empty identifier counts as none, as in the source.
\<close>

definition has_id :: "rumor \<Rightarrow> bool" where
  "has_id r = (case rumor_id r of None \<Rightarrow> False | Some i \<Rightarrow> i \<noteq> [])"

definition same_rumor :: "rumor \<Rightarrow> rumor \<Rightarrow> bool" where
  "same_rumor a b =
     (if has_id a \<and> has_id b then rumor_id a = rumor_id b
      else \<not> has_id a \<and> \<not> has_id b \<and>
           rumor_pubkey a = rumor_pubkey b \<and>
           rumor_created_at a = rumor_created_at b \<and>
           map_option (take 32) (rumor_content a) = map_option (take 32) (rumor_content b))"

section \<open>The key codec (nip17-bus.ts, normalizePubkey and pubkeyToNpub)\<close>

text \<open>
  \<^verbatim>\<open>String.prototype.trim\<close> on 8-bit code units: tab, line feed, vertical tab, form feed,
  carriage return, space and the no-break space are white space.
\<close>

definition is_space :: "char \<Rightarrow> bool" where
  "is_space c = (of_char c \<in> {9, 10, 11, 12, 13, 32, 160 :: nat})"

definition trim :: "string \<Rightarrow> string" where
  "trim s = rev (dropWhile is_space (rev (dropWhile is_space s)))"

definition startsWith :: "string \<Rightarrow> string \<Rightarrow> bool" where
  "startsWith s p = (take (length p) s = p)"

text \<open>\<^verbatim>\<open>/^[0-9a-fA-F]{64}$/.test(s)\<close>\<close>

definition is_hex_char :: "char \<Rightarrow> bool" where
  "is_hex_char c = (c \<in> set ''0123456789abcdefABCDEF'')"

definition is_hex64 :: "string \<Rightarrow> bool" where
  "is_hex64 s = (length s = 64 \<and> list_all is_hex_char s)"

text \<open>\<^verbatim>\<open>toLowerCase\<close> and \<^verbatim>\<open>toUpperCase\<close> on letters of the basic alphabet.\<close>

definition lower_char :: "char \<Rightarrow> char" where
  "lower_char c =
     (if 65 \<le> (of_char c :: nat) \<and> (of_char c :: nat) \<le> 90 then char_of (of_char c + 32 :: nat) else c)"

definition toLowerCase :: "string \<Rightarrow> string" where
  "toLowerCase s = map lower_char s"

definition upper_char :: "char \<Rightarrow> char" where
  "upper_char c =
     (if 97 \<le> (of_char c :: nat) \<and> (of_char c :: nat) \<le> 122 then char_of (of_char c - 32 :: nat) else c)"

definition toUpperCase :: "string \<Rightarrow> string" where
  "toUpperCase s = map upper_char s"

text \<open>\<^verbatim>\<open>b.toString(16).padStart(2, "0")\<close>\<close>

definition hex_digit :: "nat \<Rightarrow> char" where
  "hex_digit d = (if d < 10 then char_of (48 + d) else char_of (87 + d))"

fun toString16 :: "nat \<Rightarrow> string" where
  "toString16 n = (if n < 16 then [hex_digit n] else toString16 (n div 16) @ [hex_digit (n mod 16)])"

declare toString16.simps [simp del]

definition padStart :: "nat \<Rightarrow> char \<Rightarrow> string \<Rightarrow> string" where
  "padStart n c s = replicate (n - length s) c @ s"

definition bytes_to_hex :: "8 word list \<Rightarrow> string" where
  "bytes_to_hex bs = concat (map (\<lambda>b. padStart 2 (CHR ''0'') (toString16 (unat b))) bs)"

text \<open>
  What \<^verbatim>\<open>nip19.decode\<close> hands out as \<^verbatim>\<open>data\<close>: an array of bytes, or a string. The source
  reads it through the unchecked cast \<^verbatim>\<open>decoded.data as unknown as Uint8Array\<close>, and
  \<^verbatim>\<open>Array.from(data).map((b) => b.toString(16).padStart(2, "0")).join("")\<close>
  runs on either: a byte prints as two hex digits; \<^verbatim>\<open>Array.from\<close> of a string gives its
  characters, whose \<^verbatim>\<open>toString\<close> ignores the radix, so each character is padded with a
  zero.
\<close>

datatype js_data = Bytes "8 word list" | Text string

definition data_to_hex :: "js_data \<Rightarrow> string" where
  "data_to_hex d =
     (case d of
        Bytes bs \<Rightarrow> bytes_to_hex bs
      | Text t \<Rightarrow> concat (map (\<lambda>c. padStart 2 (CHR ''0'') [c]) t))"

record decoded =
  decoded_type :: string
  decoded_data :: js_data

subsection \<open>The codec of nostr-tools (nip19, over the bech32 coder of @scure/base)\<close>

text \<open>
  The library is not part of the repository; the functions that the source calls are
  written out here from the library: bech32 with the checksum of BIP 173, and the
  regrouping of bits between bytes and 5-bit words.
\<close>

definition BECH_ALPHABET :: string where
  "BECH_ALPHABET = ''qpzry9x8gf2tvdw0s3jn54khce6mua7l''"

definition POLYMOD_GENERATORS :: "nat list" where
  "POLYMOD_GENERATORS = [0x3b6a57b2, 0x26508e6d, 0x1ea119fa, 0x3d4233dd, 0x2a1462b3]"

text \<open>
  \<^verbatim>\<open>bech32Polymod(pre)\<close>: with \<^verbatim>\<open>b = pre >> 25\<close>, the value \<^verbatim>\<open>(pre & 0x1ffffff) << 5\<close>
  is combined with the i-th generator for every bit i of b that is set.
\<close>

definition bech32Polymod :: "nat \<Rightarrow> nat" where
  "bech32Polymod pre =
     foldl (\<lambda>c i. if ((pre div 2 ^ 25) div 2 ^ i) mod 2 = 1 then c XOR (POLYMOD_GENERATORS ! i) else c)
       ((pre mod 2 ^ 25) * 2 ^ 5) [0..<5]"

text \<open>
  \<^verbatim>\<open>bechChecksum(prefix, words, 1)\<close>: starting from 1, every step is
  \<^verbatim>\<open>chk = bech32Polymod(chk) ^ v\<close>, with v running through the high bits of the
  characters of the prefix, a zero, their low bits, the words and six zeros; the result is
  combined with the constant 1 and written as six words.
\<close>

definition bechChecksumValue :: "string \<Rightarrow> nat list \<Rightarrow> nat" where
  "bechChecksumValue prefix ws =
     (foldl (\<lambda>chk v. bech32Polymod chk XOR v) 1
        (map (\<lambda>c. of_char c div 32) prefix @ [0] @ map (\<lambda>c. of_char c mod 32) prefix @
         ws @ [0, 0, 0, 0, 0, 0]) XOR 1) mod 2 ^ 30"

definition bechChecksum :: "string \<Rightarrow> nat list \<Rightarrow> string" where
  "bechChecksum prefix ws =
     map (\<lambda>i. BECH_ALPHABET ! ((bechChecksumValue prefix ws div 2 ^ (5 * (5 - i))) mod 32))
       [0..<6]"

text \<open>
  \<^verbatim>\<open>convertRadix2(data, from, to, padding)\<close>: the digits of \<open>from\<close> bits are strung
  together and cut into digits of \<open>to\<close> bits. For each digit read, the inner loop
  \<^verbatim>\<open>for (; pos >= to; pos -= to) res.push((carry >> (pos - to)) & mask)\<close> emits the digits
  that are complete (\<open>emit\<close>) and leaves \<open>pos\<close> bits in the carry (\<open>left_over\<close>).
  Without padding, the bits left at the end must be fewer than \<open>from\<close> and all zero.
\<close>

fun emit :: "nat \<Rightarrow> nat \<Rightarrow> nat \<Rightarrow> nat list" where
  "emit to carry pos =
     (if 0 < to \<and> to \<le> pos
      then (carry div 2 ^ (pos - to)) mod 2 ^ to # emit to carry (pos - to)
      else [])"

declare emit.simps [simp del]

fun left_over :: "nat \<Rightarrow> nat \<Rightarrow> nat" where
  "left_over to pos = (if 0 < to \<and> to \<le> pos then left_over to (pos - to) else pos)"

declare left_over.simps [simp del]

fun radix_loop ::
  "nat \<Rightarrow> nat \<Rightarrow> nat \<Rightarrow> nat \<Rightarrow> nat list \<Rightarrow> nat list \<Rightarrow> nat list \<times> nat \<times> nat" where
  "radix_loop frm to carry pos res [] = (res, carry, pos)"
| "radix_loop frm to carry pos res (n # ns) =
     radix_loop frm to
       ((carry * 2 ^ frm + n) mod 2 ^ left_over to (pos + frm))
       (left_over to (pos + frm))
       (res @ emit to (carry * 2 ^ frm + n) (pos + frm))
       ns"

definition convertRadix2 :: "nat \<Rightarrow> nat \<Rightarrow> bool \<Rightarrow> nat list \<Rightarrow> string + nat list" where
  "convertRadix2 frm to padding dat =
     (let (res, carry, pos) = radix_loop frm to 0 0 [] dat;
          last_digit = (carry * 2 ^ (to - pos)) mod 2 ^ to
      in if \<not> padding \<and> pos \<ge> frm then Inl ''Excess padding''
         else if \<not> padding \<and> last_digit > 0 then Inl ''Non-zero padding''
         else Inr (if padding \<and> pos > 0 then res @ [last_digit] else res))"

fun first_index :: "char \<Rightarrow> string \<Rightarrow> nat option" where
  "first_index c [] = None"
| "first_index c (x # xs) = (if x = c then Some 0 else map_option Suc (first_index c xs))"

definition lastIndexOf :: "char \<Rightarrow> string \<Rightarrow> nat option" where
  "lastIndexOf c s = map_option (\<lambda>i. length s - 1 - i) (first_index c (rev s))"

definition alphabet_decode :: "string \<Rightarrow> nat list option" where
  "alphabet_decode cs =
     (if list_all (\<lambda>c. first_index c BECH_ALPHABET \<noteq> None) cs
      then Some (map (\<lambda>c. case first_index c BECH_ALPHABET of None \<Rightarrow> 0 | Some w \<Rightarrow> w) cs)
      else None)"

text \<open>\<^verbatim>\<open>bech32.encode(prefix, words, 5000)\<close>, for a lower-case prefix and a short list of words.\<close>

definition bech32_encode :: "string \<Rightarrow> nat list \<Rightarrow> string" where
  "bech32_encode prefix ws =
     prefix @ ''1'' @ map (\<lambda>w. BECH_ALPHABET ! w) ws @ bechChecksum prefix ws"

text \<open>\<^verbatim>\<open>bech32.decode(str, 5000)\<close>: throws, or yields the prefix and the words.\<close>

definition bech32_decode :: "string \<Rightarrow> string + string \<times> nat list" where
  "bech32_decode str =
     (if length str < 8 \<or> length str > 5000 then Inl ''invalid string length''
      else
        let lowered = toLowerCase str in
        if str \<noteq> lowered \<and> str \<noteq> toUpperCase str
        then Inl ''String must be lowercase or uppercase''
        else
          (case lastIndexOf CHR ''1'' lowered of
             None \<Rightarrow> Inl ''Letter 1 must be present between prefix and data only''
           | Some sep \<Rightarrow>
               if sep = 0 then Inl ''Letter 1 must be present between prefix and data only''
               else
                 let prefix = take sep lowered;
                     dat = drop (Suc sep) lowered
                 in if length dat < 6 then Inl ''Data must be at least 6 characters long''
                    else
                      (case alphabet_decode dat of
                         None \<Rightarrow> Inl ''Unknown letter''
                       | Some ws \<Rightarrow>
                           let words = take (length ws - 6) ws in
                           if \<not> list_all (\<lambda>c. 33 \<le> (of_char c :: nat) \<and> (of_char c :: nat) \<le> 126) prefix
                           then Inl ''Invalid prefix''
                           else if drop (length dat - 6) dat \<noteq> bechChecksum prefix words
                           then Inl ''Invalid checksum''
                           else Inr (prefix, words))))"

text \<open>
  \<^verbatim>\<open>nip19.decode(code)\<close>: for the prefix \<^verbatim>\<open>nsec\<close> the data are the bytes; for \<^verbatim>\<open>npub\<close> and
  \<^verbatim>\<open>note\<close> the data is \<^verbatim>\<open>bytesToHex(data)\<close>, the bytes as a string of hex digits. (The
  prefixes \<^verbatim>\<open>nprofile\<close>, \<^verbatim>\<open>nevent\<close> and \<^verbatim>\<open>naddr\<close>, which decode to structured data, cannot
  begin a string that starts with \<^verbatim>\<open>npub1\<close>, the only strings that the source decodes;
  they are counted with the unknown prefixes.)
\<close>

definition nip19_decode :: "string \<Rightarrow> string + decoded" where
  "nip19_decode code =
     (case bech32_decode code of
        Inl err \<Rightarrow> Inl err
      | Inr (prefix, ws) \<Rightarrow>
          (case convertRadix2 5 8 False ws of
             Inl err \<Rightarrow> Inl err
           | Inr bs \<Rightarrow>
               let dat = map of_nat bs :: 8 word list in
               if prefix = ''nsec'' then Inr \<lparr>decoded_type = prefix, decoded_data = Bytes dat\<rparr>
               else if prefix = ''npub'' \<or> prefix = ''note''
               then Inr \<lparr>decoded_type = prefix, decoded_data = Text (bytes_to_hex dat)\<rparr>
               else Inl ''unknown prefix''))"

text \<open>
  \<^verbatim>\<open>nip19.npubEncode(hex)\<close>: \<^verbatim>\<open>hexToBytes\<close> throws on a string of odd length or with a
  character that is no hex digit; the bytes are regrouped into words and encoded.
\<close>

definition hex_val :: "char \<Rightarrow> nat" where
  "hex_val c =
     (let n = (of_char c :: nat) in
      if n < 58 then n - 48 else if n < 71 then n - 55 else n - 87)"

fun hexToBytes :: "string \<Rightarrow> 8 word list" where
  "hexToBytes (a # b # cs) = of_nat (hex_val a * 16 + hex_val b) # hexToBytes cs"
| "hexToBytes _ = []"

definition nip19_npubEncode :: "string \<Rightarrow> string + string" where
  "nip19_npubEncode hex =
     (if odd (length hex) \<or> \<not> list_all is_hex_char hex then Inl ''hex string expected''
      else
        (case convertRadix2 8 5 True (map unat (hexToBytes hex)) of
           Inl err \<Rightarrow> Inl err
         | Inr ws \<Rightarrow> Inr (bech32_encode ''npub'' ws)))"

subsection \<open>The functions of the source\<close>

definition normalizePubkey :: "string \<Rightarrow> string + string" where
  "normalizePubkey inp =
     (let trimmed = trim inp in
      if startsWith trimmed ''npub1'' then
        (case nip19_decode trimmed of
           Inl err \<Rightarrow> Inl err
         | Inr d \<Rightarrow>
             if decoded_type d \<noteq> ''npub'' then Inl ''Invalid npub key''
             else Inr (data_to_hex (decoded_data d)))
      else if \<not> is_hex64 trimmed then Inl ''Pubkey must be 64 hex chars or npub format''
      else Inr (toLowerCase trimmed))"

definition pubkeyToNpub :: "string \<Rightarrow> string + string" where
  "pubkeyToNpub hexPubkey =
     (case normalizePubkey hexPubkey of
        Inl err \<Rightarrow> Inl err
      | Inr h \<Rightarrow> nip19_npubEncode h)"

section \<open>Concrete inputs\<close>

text \<open>
  Identifiers that differ pairwise, for filling the ledger: the n-th is the letter x
  written n + 1 times.
\<close>

definition filler_id :: "nat \<Rightarrow> string" where
  "filler_id n = replicate (Suc n) CHR ''x''"

text \<open>
  A bus with the public key \<^verbatim>\<open>me\<close> on the two default relays. The gift wraps \<^verbatim>\<open>a\<close> and
  \<^verbatim>\<open>b\<close> both carry the chat message \<^verbatim>\<open>r1\<close> that alice wrote 50 seconds before the
  gateway started, the gift wrap \<^verbatim>\<open>s\<close> carries the bus's own copy of a sent message, the
  gift wrap \<^verbatim>\<open>u\<close> carries a chat message of bob without the field \<^verbatim>\<open>created_at\<close>, a gift
  wrap whose identifier is the letter m written n + 1 times carries the n-th of a series
  of chat messages that alice wrote after the gateway started, one each second, and every
  other gift wrap fails to decrypt.
\<close>

definition wrap :: "string \<Rightarrow> int \<Rightarrow> event" where
  "wrap i t =
     \<lparr>event_id = i, event_kind = 1059, event_pubkey = ''ephemeral'', event_created_at = t,
      event_tags = [[''p'', ''me'']], event_content = ''ciphertext'', event_sig = ''sig''\<rparr>"

definition chat :: "string \<Rightarrow> string \<Rightarrow> int \<Rightarrow> rumor" where
  "chat i sender t =
     \<lparr>rumor_id = Some i, rumor_kind = 14, rumor_pubkey = sender, rumor_created_at = seconds t,
      rumor_content = Some ''hello''\<rparr>"

definition undated :: rumor where
  "undated =
     \<lparr>rumor_id = Some ''r3'', rumor_kind = 14, rumor_pubkey = ''bob'',
      rumor_created_at = JsValue NaN ''undefined'', rumor_content = Some ''hi''\<rparr>"

definition note_id :: "nat \<Rightarrow> string" where
  "note_id n = replicate (Suc n) CHR ''m''"

definition note_rumor :: "nat \<Rightarrow> rumor" where
  "note_rumor n = chat (replicate (Suc n) CHR ''n'') ''alice'' (1700000001 + int n)"

definition note_event :: "nat \<Rightarrow> event" where
  "note_event n = wrap (note_id n) 1699900000"

definition demo_unwrap :: "event \<Rightarrow> string + rumor" where
  "demo_unwrap ev =
     (if event_id ev = ''a'' \<or> event_id ev = ''b'' then Inr (chat ''r1'' ''alice'' 1699999950)
      else if event_id ev = ''s'' then Inr (chat ''r2'' ''me'' 1699999990)
      else if event_id ev = ''u'' then Inr undated
      else if event_id ev \<noteq> [] \<and> list_all (\<lambda>c. c = CHR ''m'') (event_id ev)
      then Inr (note_rumor (length (event_id ev) - 1))
      else Inl ''invalid MAC'')"

definition demo_env :: bus_env where
  "demo_env =
     \<lparr>pk = ''me'', relays = [''wss://relay.damus.io'', ''wss://nos.lol''],
      onError_given = True, unwrapEvent = demo_unwrap\<rparr>"

text \<open>The bus as it is after a first start at time 1700000000, with no state file.\<close>

definition fresh_bus :: bus where
  "fresh_bus =
     \<lparr>globalSeen = [], var_lastProcessedAt = 1700000000, var_lastRumorAt = Num 0,
      arrays = [[]], var_recentEventIds = 0, var_gatewayStartedAt = 1700000000,
      pending = [], awaiting_mkdir = [], writing = [],
      disk = Stored \<lparr>lastProcessedAt = 1700000000, gatewayStartedAt = 1700000000,
                      recentEventIds = [], recentFingerprints = None, lastRumorAt = Some 0\<rparr>\<rparr>"

text \<open>
  The state file of an earlier session that handled one message, and the bus as it is
  after a restart of the process from that file.
\<close>

definition earlier_state :: NostrBusState where
  "earlier_state =
     \<lparr>lastProcessedAt = 1699990000, gatewayStartedAt = 1699980000,
      recentEventIds = [''old''], recentFingerprints = None, lastRumorAt = Some 1699999950\<rparr>"

definition restarted_bus :: bus where
  "restarted_bus =
     \<lparr>globalSeen = [''gw:old''], var_lastProcessedAt = 1699990000,
      var_lastRumorAt = Num 1699999950, arrays = [[''old'']], var_recentEventIds = 0,
      var_gatewayStartedAt = 1700000000,
      pending = [], awaiting_mkdir = [], writing = [],
      disk = Stored \<lparr>lastProcessedAt = 1699990000, gatewayStartedAt = 1700000000,
                      recentEventIds = [''old''], recentFingerprints = None,
                      lastRumorAt = Some 1699999950\<rparr>\<rparr>"

text \<open>A state file whose watermark \<^verbatim>\<open>lastProcessedAt\<close> is present and 0.\<close>

definition zero_watermark_state :: NostrBusState where
  "zero_watermark_state =
     \<lparr>lastProcessedAt = 0, gatewayStartedAt = 1699980000, recentEventIds = [],
      recentFingerprints = None, lastRumorAt = Some 0\<rparr>"

text \<open>
  A send in which the wraps are made without error and every publish to the relay
  \<^verbatim>\<open>wss://nos.lol\<close> is rejected; and the wrap creation as it is for a recipient that is
  no public key, where \<^verbatim>\<open>createSeal\<close> throws.
\<close>

definition demo_createWraps :: "string \<Rightarrow> string \<Rightarrow> string + event \<times> event" where
  "demo_createWraps toPubkey text =
     (if is_hex64 toPubkey then Inr (wrap ''w1'' 1699900000, wrap ''w2'' 1699950000)
      else Inl ''invalid public key'')"

definition demo_outcome :: "nat \<Rightarrow> string \<Rightarrow> event \<Rightarrow> settled" where
  "demo_outcome n relay w = (if relay = ''wss://nos.lol'' then RejectedWith ''timeout'' else Fulfilled)"

text \<open>A public key in hex, the example of NIP-19.\<close>

definition bob_key :: string where
  "bob_key = ''3bf0c63fcb93463407af97a5e5ee64fa883d107ef9e558472c4eb9aaaefa459d''"

text \<open>Gift wraps addressed to somebody else, one for each filler identifier.\<close>

definition filler_event :: "nat \<Rightarrow> event" where
  "filler_event n = wrap (filler_id n) 0"

definition filler_deliveries :: "nat \<Rightarrow> nat \<Rightarrow> input list" where
  "filler_deliveries m n = map (\<lambda>i. Deliver (filler_event i)) [m..<n]"

text \<open>
  The n-th message of the series, received and handled to the end: the gift wrap is
  delivered, the callback resolves, and the state write that follows passes \<^verbatim>\<open>mkdir\<close>
  and lands in the file before anything else happens.
\<close>

definition handled :: "nat \<Rightarrow> input list" where
  "handled n = [Deliver (note_event n), Settle 0 Resolved, MkdirDone 0 None, WriteDone 0 Landed]"

fun handled_upto :: "nat \<Rightarrow> input list" where
  "handled_upto 0 = []"
| "handled_upto (Suc n) = handled_upto n @ handled n"

text \<open>
  Two more messages whose callbacks resolve one after the other, before the state write
  of the first has passed \<^verbatim>\<open>mkdir\<close>; then that write passes \<^verbatim>\<open>mkdir\<close> and lands.
\<close>

definition two_in_a_row :: "input list" where
  "two_in_a_row =
     [Deliver (note_event 5000), Settle 0 Resolved,
      Deliver (note_event 5001), Settle 0 Resolved,
      MkdirDone 0 None, WriteDone 0 Landed]"

text \<open>The bus after the first n messages of the series, each handled to the end.\<close>

fun note_keys :: "nat \<Rightarrow> string list" where
  "note_keys 0 = []"
| "note_keys (Suc n) = note_keys n @ [gwKey (note_event n), rumorId (note_rumor n)]"

definition note_record :: "nat \<Rightarrow> NostrBusState" where
  "note_record n =
     \<lparr>lastProcessedAt = 1700000000, gatewayStartedAt = 1700000000,
      recentEventIds = map note_id [0..<n], recentFingerprints = None,
      lastRumorAt = Some (if n = 0 then 0 else 1700000000 + int n)\<rparr>"

definition note_state :: "nat \<Rightarrow> bus" where
  "note_state n =
     \<lparr>globalSeen = note_keys n, var_lastProcessedAt = 1700000000,
      var_lastRumorAt = Num (if n = 0 then 0 else 1700000000 + int n),
      arrays = [map note_id [0..<n]], var_recentEventIds = 0,
      var_gatewayStartedAt = 1700000000,
      pending = [], awaiting_mkdir = [], writing = [],
      disk = Stored (note_record n)\<rparr>"

text \<open>The npub encoding of the key.\<close>

definition npub_key :: string where
  "npub_key = ''npub180cvv07tjdrrgpa0j7j7tmnyl2yr6yr7l8j4s3evf6u64th6gkwsyjh6w6''"

text \<open>The 32 bytes of the key, and the same bits in 52 words of 5 bits.\<close>

definition bob_bytes :: "nat list" where
  "bob_bytes =
     [59, 240, 198, 63, 203, 147, 70, 52, 7, 175, 151, 165, 229, 238, 100, 250, 136, 61, 16,
      126, 249, 229, 88, 71, 44, 78, 185, 170, 174, 250, 69, 157]"

definition bob_words :: "nat list" where
  "bob_words =
     [7, 15, 24, 12, 12, 15, 30, 11, 18, 13, 3, 3, 8, 1, 29, 15, 18, 30, 18, 30, 11, 27, 19,
      4, 31, 10, 4, 3, 26, 4, 3, 30, 31, 7, 18, 21, 16, 17, 25, 12, 9, 26, 28, 26, 21, 11, 23,
      26, 8, 22, 14, 16]"

section \<open>Properties of the ledger\<close>

lemma trim_loop_drop: "trim_loop n d ks = drop (n - d) ks"
proof (induction ks arbitrary: d)
  case Nil
  show ?case by simp
next
  case (Cons k ks)
  show ?case
  proof (cases "n \<le> d")
    case True
    then show ?thesis by simp
  next
    case False
    then have "n - d = Suc (n - Suc d)" by simp
    with False Cons show ?thesis by simp
  qed
qed

lemma globalDedup_seen: "key \<in> set seen \<Longrightarrow> globalDedup key seen = (True, seen)"
  by (simp add: globalDedup_def)

lemma globalDedup_fresh_room:
  "key \<notin> set seen \<Longrightarrow> length seen < GLOBAL_SEEN_MAX \<Longrightarrow>
   globalDedup key seen = (False, seen @ [key])"
  by (simp add: globalDedup_def Let_def)

lemma globalDedup_fresh_full:
  "key \<notin> set seen \<Longrightarrow> length seen \<ge> GLOBAL_SEEN_MAX \<Longrightarrow>
   globalDedup key seen = (False, drop (Suc (length seen) - GLOBAL_SEEN_KEEP) (seen @ [key]))"
  by (simp add: globalDedup_def Let_def trim_loop_drop)

lemma globalDedup_bound:
  "length seen \<le> GLOBAL_SEEN_MAX \<Longrightarrow> length (snd (globalDedup key seen)) \<le> GLOBAL_SEEN_MAX"
  by (simp add: globalDedup_def Let_def trim_loop_drop GLOBAL_SEEN_KEEP_def GLOBAL_SEEN_MAX_def)

lemma foldl_globalDedup_bound:
  "length seen \<le> GLOBAL_SEEN_MAX \<Longrightarrow>
   length (foldl (\<lambda>seen k. snd (globalDedup k seen)) seen keys) \<le> GLOBAL_SEEN_MAX"
  by (induction keys arbitrary: seen) (simp_all add: globalDedup_bound)

lemma ledger_after_bound: "length (ledger_after keys) \<le> GLOBAL_SEEN_MAX"
  unfolding ledger_after_def by (rule foldl_globalDedup_bound) simp

lemma ledger_after_snoc:
  "ledger_after (keys @ [k]) = snd (globalDedup k (ledger_after keys))"
  by (simp add: ledger_after_def)

lemma foldl_globalDedup_distinct:
  "distinct (seen @ ks) \<Longrightarrow> length seen + length ks \<le> GLOBAL_SEEN_MAX \<Longrightarrow>
   foldl (\<lambda>seen k. snd (globalDedup k seen)) seen ks = seen @ ks"
proof (induction ks arbitrary: seen)
  case Nil
  show ?case by simp
next
  case (Cons k ks)
  from Cons.prems have fresh: "k \<notin> set seen" and room: "length seen < GLOBAL_SEEN_MAX"
    by auto
  have "distinct ((seen @ [k]) @ ks)" "length (seen @ [k]) + length ks \<le> GLOBAL_SEEN_MAX"
    using Cons.prems by auto
  from Cons.IH [OF this] show ?case
    by (simp add: globalDedup_fresh_room [OF fresh room])
qed

lemma ledger_after_distinct:
  "distinct ks \<Longrightarrow> length ks \<le> GLOBAL_SEEN_MAX \<Longrightarrow> ledger_after ks = ks"
  unfolding ledger_after_def using foldl_globalDedup_distinct [of "[]" ks] by simp

lemma filler_id_inj: "filler_id m = filler_id n \<longleftrightarrow> m = n"
  unfolding filler_id_def
  by (metis length_replicate nat.inject)

lemma distinct_filler_ids: "distinct (map filler_id [0..<n])"
  by (simp add: distinct_map inj_on_def filler_id_inj)

text \<open>
  C8. Whatever keys are checked and inserted, starting from the empty module-level set,
  the ledger holds at most 20000 keys after each call. An insert into a ledger of 20000
  keys drops the 4001 oldest keys of the 20001, so that the 16000 newest remain, the new
  key among them.
\<close>

theorem ledger_bounded_and_trimmed:
  "length (ledger_after keys) \<le> GLOBAL_SEEN_MAX \<and>
   GLOBAL_SEEN_MAX = 20000 \<and>
   (key \<notin> set (ledger_after keys) \<and> length (ledger_after keys) = GLOBAL_SEEN_MAX \<longrightarrow>
      snd (globalDedup key (ledger_after keys)) = drop 4001 (ledger_after keys @ [key]) \<and>
      length (snd (globalDedup key (ledger_after keys))) = 16000)"
proof (intro conjI impI)
  show "length (ledger_after keys) \<le> GLOBAL_SEEN_MAX" by (rule ledger_after_bound)
next
  show "GLOBAL_SEEN_MAX = 20000" by (simp add: GLOBAL_SEEN_MAX_def)
next
  assume a: "key \<notin> set (ledger_after keys) \<and> length (ledger_after keys) = GLOBAL_SEEN_MAX"
  then have "globalDedup key (ledger_after keys) =
      (False, drop (Suc (length (ledger_after keys)) - GLOBAL_SEEN_KEEP) (ledger_after keys @ [key]))"
    by (intro globalDedup_fresh_full) simp_all
  with a show s: "snd (globalDedup key (ledger_after keys)) = drop 4001 (ledger_after keys @ [key])"
    by (simp add: GLOBAL_SEEN_KEEP_def GLOBAL_SEEN_MAX_def)
  from a show "length (snd (globalDedup key (ledger_after keys))) = 16000"
    unfolding s by (simp add: GLOBAL_SEEN_MAX_def)
qed

theorem ledger_bounded_and_trimmed_witness:
  "''y'' \<notin> set (ledger_after (map filler_id [0..<20000])) \<and>
   length (ledger_after (map filler_id [0..<20000])) = GLOBAL_SEEN_MAX \<and>
   snd (globalDedup ''y'' (ledger_after (map filler_id [0..<20000]))) =
     drop 4001 (map filler_id [0..<20000] @ [''y'']) \<and>
   length (snd (globalDedup ''y'' (ledger_after (map filler_id [0..<20000])))) = 16000"
proof -
  have l: "ledger_after (map filler_id [0..<20000]) = map filler_id [0..<20000]"
    by (rule ledger_after_distinct) (simp_all add: distinct_filler_ids GLOBAL_SEEN_MAX_def)
  have f: "''y'' \<notin> set (map filler_id [0..<20000])"
    by (auto simp: filler_id_def)
  show ?thesis
    using ledger_bounded_and_trimmed [of "map filler_id [0..<20000]" "''y''"] f
    unfolding l by (simp add: GLOBAL_SEEN_MAX_def)
qed

section \<open>Properties of the handler\<close>

lemma globalDedup_pair: "globalDedup k seen = (k \<in> set seen, snd (globalDedup k seen))"
  by (simp add: globalDedup_def Let_def)

lemma globalDedup_keeps_key: "k \<in> set (snd (globalDedup k seen))"
  by (simp add: globalDedup_def Let_def trim_loop_drop GLOBAL_SEEN_KEEP_def GLOBAL_SEEN_MAX_def)

lemma case_dedup:
  "(case globalDedup k seen of (True, x) \<Rightarrow> a | (False, x) \<Rightarrow> b x) =
   (if k \<in> set seen then a else b (snd (globalDedup k seen)))"
  by (subst globalDedup_pair) simp

lemma handleEvent_unfold:
  "handleEvent env ev s =
     (if gwKey ev \<in> set (globalSeen s) then (s, [])
      else if event_kind ev \<noteq> 1059
      then (s\<lparr>globalSeen := snd (globalDedup (gwKey ev) (globalSeen s))\<rparr>, [])
      else
        (case unwrapEvent env ev of
           Inl err \<Rightarrow> (s\<lparr>globalSeen := snd (globalDedup (gwKey ev) (globalSeen s))\<rparr>,
                        report env err (''unwrap gift wrap '' @ event_id ev))
         | Inr r \<Rightarrow>
             if rumor_kind r \<noteq> 14 \<or> rumorId r \<in> set (snd (globalDedup (gwKey ev) (globalSeen s)))
             then (s\<lparr>globalSeen := snd (globalDedup (gwKey ev) (globalSeen s))\<rparr>, [])
             else if rumor_pubkey r = pk env \<or>
                     (js_gt (var_lastRumorAt s) (Num 0) \<and>
                      js_le (to_number (rumor_created_at r)) (var_lastRumorAt s))
             then (s\<lparr>globalSeen :=
                       snd (globalDedup (rumorId r) (snd (globalDedup (gwKey ev) (globalSeen s))))\<rparr>, [])
             else (s\<lparr>globalSeen :=
                       snd (globalDedup (rumorId r) (snd (globalDedup (gwKey ev) (globalSeen s)))),
                     pending := pending s @ [(ev, r)]\<rparr>, [OnMessage ev r])))"
  unfolding handleEvent_def case_dedup Let_def
  by (simp split: sum.splits)

lemma callbacks_append: "callbacks (a @ b) = callbacks a @ callbacks b"
  by (induction a rule: callbacks.induct) simp_all

lemma callbacks_report: "callbacks (report env err ctx) = []"
  by (simp add: report_def)

lemma OnMessage_callbacks: "OnMessage ev r \<in> set out \<longleftrightarrow> (ev, r) \<in> set (callbacks out)"
  by (induction out rule: callbacks.induct) auto

lemma persistStateNow_keeps:
  "globalSeen (persistStateNow s) = globalSeen s"
  "var_lastRumorAt (persistStateNow s) = var_lastRumorAt s"
  "var_recentEventIds (persistStateNow s) = var_recentEventIds s"
  "arrays (persistStateNow s) = arrays s"
  "pending (persistStateNow s) = pending s"
  by (simp_all add: persistStateNow_def)

lemma scheduleStatePersist_keeps:
  "globalSeen (scheduleStatePersist t i s) = globalSeen s"
  "var_lastRumorAt (scheduleStatePersist t i s) = var_lastRumorAt s"
  "pending (scheduleStatePersist t i s) = pending s"
  by (simp_all add: scheduleStatePersist_def Let_def persistStateNow_keeps)

lemma resumeEvent_callbacks: "callbacks (snd (resumeEvent env i outcome s)) = []"
  by (simp add: resumeEvent_def Let_def case_prod_beta callbacks_report split: settlement.splits)

lemma resumeEvent_globalSeen: "globalSeen (fst (resumeEvent env i outcome s)) = globalSeen s"
  by (simp add: resumeEvent_def Let_def case_prod_beta scheduleStatePersist_keeps
        split: settlement.splits)

lemma mkdirDone_callbacks: "callbacks (snd (mkdirDone env n outcome s)) = []"
  by (simp add: mkdirDone_def Let_def callbacks_report split: option.splits)

lemma mkdirDone_keeps:
  "globalSeen (fst (mkdirDone env n outcome s)) = globalSeen s"
  "var_lastRumorAt (fst (mkdirDone env n outcome s)) = var_lastRumorAt s"
  by (simp_all add: mkdirDone_def Let_def split: option.splits)

lemma writeDone_callbacks: "callbacks (snd (writeDone env n outcome s)) = []"
  by (simp add: writeDone_def Let_def callbacks_report split: write_end.splits)

lemma writeDone_keeps:
  "globalSeen (fst (writeDone env n outcome s)) = globalSeen s"
  "var_lastRumorAt (fst (writeDone env n outcome s)) = var_lastRumorAt s"
  by (simp_all add: writeDone_def Let_def split: write_end.splits)

lemma handleEvent_lastRumorAt:
  "var_lastRumorAt (fst (handleEvent env ev s)) = var_lastRumorAt s"
  by (simp add: handleEvent_unfold split: sum.splits)

lemma handleEvent_callbacks:
  assumes "(e, r) \<in> set (callbacks (snd (handleEvent env ev s)))"
  shows "e = ev \<and> snd (handleEvent env ev s) = [OnMessage ev r] \<and>
         unwrapEvent env ev = Inr r \<and> event_kind ev = 1059 \<and> rumor_kind r = 14 \<and>
         gwKey ev \<notin> set (globalSeen s) \<and>
         rumorId r \<notin> set (snd (globalDedup (gwKey ev) (globalSeen s))) \<and>
         rumor_pubkey r \<noteq> pk env \<and>
         \<not> (js_gt (var_lastRumorAt s) (Num 0) \<and>
            js_le (to_number (rumor_created_at r)) (var_lastRumorAt s)) \<and>
         globalSeen (fst (handleEvent env ev s)) =
           snd (globalDedup (rumorId r) (snd (globalDedup (gwKey ev) (globalSeen s))))"
proof (cases "unwrapEvent env ev")
  case (Inl err)
  with assms show ?thesis
    by (simp add: handleEvent_unfold callbacks_report split: if_splits)
next
  case (Inr r')
  with assms show ?thesis
    by (simp add: handleEvent_unfold split: if_splits)
qed

lemma step_callbacks_only_deliver:
  "callbacks (snd (step env i s)) \<noteq> [] \<Longrightarrow> \<exists>ev. i = Deliver ev"
  by (cases i) (simp_all add: resumeEvent_callbacks mkdirDone_callbacks writeDone_callbacks)

lemma step_callbacks:
  assumes "(e, r) \<in> set (callbacks (snd (step env i s)))"
  shows "i = Deliver e \<and> unwrapEvent env e = Inr r \<and> rumor_pubkey r \<noteq> pk env \<and>
         \<not> (js_gt (var_lastRumorAt s) (Num 0) \<and>
            js_le (to_number (rumor_created_at r)) (var_lastRumorAt s))"
proof -
  from assms have "callbacks (snd (step env i s)) \<noteq> []" by auto
  from step_callbacks_only_deliver [OF this] obtain ev where i: "i = Deliver ev" by blast
  with assms handleEvent_callbacks [of e r env ev s] show ?thesis by simp
qed

lemma run_Cons:
  "run env (i # ins) s =
     (fst (run env ins (fst (step env i s))),
      snd (step env i s) @ snd (run env ins (fst (step env i s))))"
  by (simp add: case_prod_beta)

lemma run_append:
  "run env (xs @ ys) s =
     (fst (run env ys (fst (run env xs s))),
      snd (run env xs s) @ snd (run env ys (fst (run env xs s))))"
proof (induction xs arbitrary: s)
  case Nil
  show ?case by simp
next
  case (Cons i xs)
  show ?case
    by (simp only: append_Cons run_Cons Cons.IH fst_conv snd_conv append_assoc)
qed

lemma run_callbacks:
  assumes "(e, r) \<in> set (callbacks (snd (run env ins s)))"
  shows "unwrapEvent env e = Inr r \<and> rumor_pubkey r \<noteq> pk env"
  using assms
proof (induction ins arbitrary: s)
  case Nil
  then show ?case by simp
next
  case (Cons i ins)
  let ?s1 = "fst (step env i s)"
  from Cons.prems consider
      "(e, r) \<in> set (callbacks (snd (step env i s)))"
    | "(e, r) \<in> set (callbacks (snd (run env ins ?s1)))"
    by (auto simp only: run_Cons snd_conv callbacks_append set_append)
  then show ?case
  proof cases
    case 1
    from step_callbacks [OF this] show ?thesis by simp
  next
    case 2
    from Cons.IH [OF this] show ?thesis .
  qed
qed

lemma start_fresh:
  "startNip17Bus demo_env 1700000000 None None [] =
     Started fresh_bus \<lparr>kinds = [1059], p_tag = [''me''], since = 1699827200\<rparr>"
  by (simp add: startNip17Bus_def computeSinceTimestamp_def STARTUP_LOOKBACK_SEC_def
        seed_ledger_def slice_last_def fresh_bus_def demo_env_def Let_def)

lemma start_again:
  "startNip17Bus demo_env 1700000000 (Some earlier_state) None [] =
     Started restarted_bus \<lparr>kinds = [1059], p_tag = [''me''], since = 1699817200\<rparr>"
  by (simp add: startNip17Bus_def computeSinceTimestamp_def STARTUP_LOOKBACK_SEC_def
        seed_ledger_def slice_last_def restarted_bus_def demo_env_def earlier_state_def
        globalDedup_def GLOBAL_SEEN_MAX_def MAX_PERSISTED_EVENT_IDS_def Let_def)

text \<open>
  C3. A gift wrap whose rumor was written by the bus's own public key never reaches the
  message callback: however the deliveries, the settlements of earlier callbacks and the
  state the bus is in are arranged, no run of the bus invokes \<^verbatim>\<open>onMessage\<close> for it.
\<close>

theorem own_rumor_never_delivered:
  assumes "unwrapEvent env ev = Inr r" and "rumor_pubkey r = pk env"
  shows "OnMessage ev r' \<notin> set (snd (run env ins s))"
proof
  assume "OnMessage ev r' \<in> set (snd (run env ins s))"
  then have "(ev, r') \<in> set (callbacks (snd (run env ins s)))"
    by (simp add: OnMessage_callbacks)
  from run_callbacks [OF this] assms show False by simp
qed

theorem own_rumor_never_delivered_witness:
  "unwrapEvent demo_env (wrap ''s'' 1699900000) = Inr (chat ''r2'' ''me'' 1699999990) \<and>
   rumor_pubkey (chat ''r2'' ''me'' 1699999990) = pk demo_env \<and>
   OnMessage (wrap ''s'' 1699900000) (chat ''r2'' ''me'' 1699999990) \<notin>
     set (snd (run demo_env [Deliver (wrap ''s'' 1699900000), Deliver (wrap ''a'' 1699900001),
                             Deliver (wrap ''s'' 1699900000)] fresh_bus))"
proof -
  have u: "unwrapEvent demo_env (wrap ''s'' 1699900000) = Inr (chat ''r2'' ''me'' 1699999990)"
    by (simp add: demo_env_def demo_unwrap_def wrap_def)
  have p: "rumor_pubkey (chat ''r2'' ''me'' 1699999990) = pk demo_env"
    by (simp add: demo_env_def chat_def)
  from own_rumor_never_delivered [OF u p] u p show ?thesis by blast
qed





text \<open>
  The watermark is lost when a callback resolves for a rumor whose \<^verbatim>\<open>created_at\<close> is no
  number: \<^verbatim>\<open>Math.max\<close> makes it \<^verbatim>\<open>NaN\<close>, the guard \<^verbatim>\<open>lastRumorAt > 0\<close> is false from
  then on, and a rumor older than the persisted watermark reaches the callback.
\<close>

lemma undated_rumor_clears_watermark:
  "var_lastRumorAt
     (fst (run demo_env [Deliver (wrap ''u'' 1699900002), Settle 0 Resolved] restarted_bus)) = NaN \<and>
   callbacks (snd (run demo_env [Deliver (wrap ''u'' 1699900002), Settle 0 Resolved,
                                 Deliver (wrap ''a'' 1699900001)] restarted_bus)) =
     [(wrap ''u'' 1699900002, undated), (wrap ''a'' 1699900001, chat ''r1'' ''alice'' 1699999950)]"
  by (simp add: handleEvent_unfold resumeEvent_def scheduleStatePersist_def persistStateNow_def
        demo_env_def demo_unwrap_def wrap_def chat_def undated_def restarted_bus_def
        gwKey_def rumorId_def globalDedup_def GLOBAL_SEEN_MAX_def MAX_PERSISTED_EVENT_IDS_def
        js_gt_def js_le_def Math_max_def array_at_def Let_def)

lemma fresh_run_example:
  "snd (run demo_env [Deliver (wrap ''s'' 1699900000), Deliver (wrap ''a'' 1699900001),
                      Deliver (wrap ''a'' 1699900001), Deliver (wrap ''zz'' 5)] fresh_bus) =
   [OnMessage (wrap ''a'' 1699900001) (chat ''r1'' ''alice'' 1699999950),
    OnError ''invalid MAC'' ''unwrap gift wrap zz'']"
  by (simp add: handleEvent_unfold demo_env_def demo_unwrap_def wrap_def chat_def fresh_bus_def
        gwKey_def rumorId_def globalDedup_def GLOBAL_SEEN_MAX_def report_def
        js_gt_def js_le_def)

section \<open>Runs in which a key is not evicted\<close>

lemma globalDedup_room:
  "length seen < GLOBAL_SEEN_MAX \<Longrightarrow>
   snd (globalDedup k seen) = (if k \<in> set seen then seen else seen @ [k])"
  by (simp add: globalDedup_def Let_def)

lemma globalDedup_last:
  assumes "k \<notin> set seen"
  shows "\<exists>ys. snd (globalDedup k seen) = ys @ [k]"
proof (cases "length seen < GLOBAL_SEEN_MAX")
  case True
  with assms show ?thesis by (simp add: globalDedup_room)
next
  case False
  then have full: "length seen \<ge> GLOBAL_SEEN_MAX" by simp
  have "Suc (length seen) - GLOBAL_SEEN_KEEP \<le> length seen"
    by (simp add: GLOBAL_SEEN_KEEP_def GLOBAL_SEEN_MAX_def)
  then have "drop (Suc (length seen) - GLOBAL_SEEN_KEEP) (seen @ [k]) =
             drop (Suc (length seen) - GLOBAL_SEEN_KEEP) seen @ [k]"
    by simp
  with globalDedup_fresh_full [OF assms full] show ?thesis by simp
qed

lemma globalDedup_keeps_last: "k \<in> set (snd (globalDedup k' (ys @ [k])))"
proof (cases "k' \<in> set (ys @ [k])")
  case True
  then show ?thesis by (simp add: globalDedup_seen)
next
  case fresh: False
  show ?thesis
  proof (cases "length (ys @ [k]) < GLOBAL_SEEN_MAX")
    case True
    with fresh show ?thesis by (simp add: globalDedup_room)
  next
    case False
    then have full: "length (ys @ [k]) \<ge> GLOBAL_SEEN_MAX" by simp
    have "Suc (length (ys @ [k])) - GLOBAL_SEEN_KEEP \<le> length ys"
      by (simp add: GLOBAL_SEEN_KEEP_def GLOBAL_SEEN_MAX_def)
    then have "drop (Suc (length (ys @ [k])) - GLOBAL_SEEN_KEEP) ((ys @ [k]) @ [k']) =
               drop (Suc (length (ys @ [k])) - GLOBAL_SEEN_KEEP) ys @ [k, k']"
      by simp
    with globalDedup_fresh_full [OF fresh full] show ?thesis by simp
  qed
qed

lemma globalDedup_keeps_previous:
  assumes "k \<notin> set seen"
  shows "k \<in> set (snd (globalDedup k' (snd (globalDedup k seen))))"
proof -
  from globalDedup_last [OF assms] obtain ys where "snd (globalDedup k seen) = ys @ [k]" by blast
  then show ?thesis by (simp add: globalDedup_keeps_last)
qed

lemma handleEvent_keeps_gw:
  "gwKey ev \<in> set (globalSeen (fst (handleEvent env ev s)))"
proof (cases "gwKey ev \<in> set (globalSeen s)")
  case True
  then show ?thesis by (simp add: handleEvent_unfold)
next
  case False
  note prev = globalDedup_keeps_previous [OF False]
  show ?thesis
  proof (cases "unwrapEvent env ev")
    case (Inl err)
    with False show ?thesis by (simp add: handleEvent_unfold globalDedup_keeps_key)
  next
    case (Inr r)
    with False show ?thesis by (simp add: handleEvent_unfold globalDedup_keeps_key prev)
  qed
qed

text \<open>
  A delivery that follows at once on a delivery of the same identifier is discarded,
  whatever the ledger held before.
\<close>

lemma immediate_redelivery_discarded:
  assumes "event_id ev' = event_id ev"
  shows "handleEvent env ev' (fst (handleEvent env ev s)) = (fst (handleEvent env ev s), [])"
proof -
  from assms handleEvent_keeps_gw [of ev env s]
  have "gwKey ev' \<in> set (globalSeen (fst (handleEvent env ev s)))" by (simp add: gwKey_def)
  then show ?thesis by (simp add: handleEvent_unfold)
qed

text \<open>
  The keys listed by \<open>dedup_calls\<close> are the calls that the step makes: the ledger after
  the step is the ledger after these calls.
\<close>

lemma step_ledger:
  "globalSeen (fst (step env i s)) =
     foldl (\<lambda>seen k. snd (globalDedup k seen)) (globalSeen s) (dedup_calls env i s)"
proof (cases i)
  case (Deliver ev)
  show ?thesis
  proof (cases "unwrapEvent env ev")
    case (Inl err)
    with Deliver show ?thesis
      by (simp add: handleEvent_unfold dedup_calls_def globalDedup_seen)
  next
    case (Inr r)
    with Deliver show ?thesis
      by (simp add: handleEvent_unfold dedup_calls_def globalDedup_seen)
  qed
next
  case (Settle n outcome)
  then show ?thesis by (simp add: resumeEvent_globalSeen dedup_calls_def)
next
  case (MkdirDone n outcome)
  then show ?thesis by (simp add: mkdirDone_keeps dedup_calls_def)
next
  case (WriteDone n outcome)
  then show ?thesis by (simp add: writeDone_keeps dedup_calls_def)
next
  case Close
  then show ?thesis by (simp add: persistStateNow_keeps dedup_calls_def)
qed

lemma dedup_calls_Deliver:
  "\<exists>rest. dedup_calls env (Deliver ev) s = gwKey ev # rest"
  by (simp add: dedup_calls_def split: sum.splits)

lemma not_evicted_append:
  "not_evicted k (xs @ ys) seen =
     (not_evicted k xs seen \<and>
      not_evicted k ys (foldl (\<lambda>seen k. snd (globalDedup k seen)) seen xs))"
  by (induction xs arbitrary: seen) auto

lemma not_evicted_stays:
  "not_evicted k keys seen \<Longrightarrow> k \<in> set seen \<Longrightarrow>
   k \<in> set (foldl (\<lambda>seen k. snd (globalDedup k seen)) seen keys)"
  by (induction keys arbitrary: seen) auto

lemma not_evicted_room:
  "length seen + length keys \<le> GLOBAL_SEEN_MAX \<Longrightarrow> not_evicted k keys seen"
proof (induction keys arbitrary: seen)
  case Nil
  show ?case by simp
next
  case (Cons key keys)
  from Cons.prems have room: "length seen < GLOBAL_SEEN_MAX" by simp
  have "length (snd (globalDedup key seen)) + length keys \<le> GLOBAL_SEEN_MAX"
    using Cons.prems by (simp add: globalDedup_room [OF room])
  from Cons.IH [OF this] show ?case
    by (simp add: globalDedup_room [OF room])
qed

lemma not_evicted_step:
  "not_evicted k (ledger_calls env (i # ins) s) (globalSeen s) =
     (not_evicted k (dedup_calls env i s) (globalSeen s) \<and>
      not_evicted k (ledger_calls env ins (fst (step env i s))) (globalSeen (fst (step env i s))))"
  by (simp add: not_evicted_append step_ledger)

lemma step_key_stays:
  assumes "not_evicted k (dedup_calls env i s) (globalSeen s)" and "k \<in> set (globalSeen s)"
  shows "k \<in> set (globalSeen (fst (step env i s)))"
  unfolding step_ledger using not_evicted_stays [OF assms] .

lemma step_key_blocks:
  assumes "not_evicted k (dedup_calls env i s) (globalSeen s)" and "k \<in> set (globalSeen s)"
    and "(e, r) \<in> set (callbacks (snd (step env i s)))"
  shows "gwKey e \<noteq> k \<and> rumorId r \<noteq> k"
proof -
  from step_callbacks [OF assms(3)] have i: "i = Deliver e" by simp
  from assms(3) i have cb: "(e, r) \<in> set (callbacks (snd (handleEvent env e s)))" by simp
  note h = handleEvent_callbacks [OF cb]
  from dedup_calls_Deliver [of env e s] obtain rest
    where "dedup_calls env (Deliver e) s = gwKey e # rest" by blast
  with assms(1,2) i have "k \<in> set (snd (globalDedup (gwKey e) (globalSeen s)))" by simp
  with h assms(2) show ?thesis by auto
qed

lemma step_callback_keys:
  assumes "(e, r) \<in> set (callbacks (snd (step env i s)))"
  shows "gwKey e \<in> set (globalSeen (fst (step env i s))) \<and>
         rumorId r \<in> set (globalSeen (fst (step env i s)))"
proof -
  from step_callbacks [OF assms] have i: "i = Deliver e" by simp
  from assms i have cb: "(e, r) \<in> set (callbacks (snd (handleEvent env e s)))" by simp
  note h = handleEvent_callbacks [OF cb]
  from h have "rumorId r \<in> set (globalSeen (fst (handleEvent env e s)))"
    by (simp add: globalDedup_keeps_key)
  with i handleEvent_keeps_gw [of e env s] show ?thesis by simp
qed

lemma step_callbacks_short: "length (callbacks (snd (step env i s))) \<le> 1"
proof (cases i)
  case (Deliver ev)
  show ?thesis
  proof (cases "unwrapEvent env ev")
    case (Inl err)
    with Deliver show ?thesis by (simp add: handleEvent_unfold callbacks_report)
  next
    case (Inr r)
    with Deliver show ?thesis by (simp add: handleEvent_unfold)
  qed
next
  case (Settle n outcome)
  then show ?thesis by (simp add: resumeEvent_callbacks)
next
  case (MkdirDone n outcome)
  then show ?thesis by (simp add: mkdirDone_callbacks)
next
  case (WriteDone n outcome)
  then show ?thesis by (simp add: writeDone_callbacks)
next
  case Close
  then show ?thesis by simp
qed

lemma run_key_blocks:
  assumes "not_evicted k (ledger_calls env ins s) (globalSeen s)" and "k \<in> set (globalSeen s)"
  shows "k \<in> set (globalSeen (fst (run env ins s))) \<and>
         (\<forall>(e, r) \<in> set (callbacks (snd (run env ins s))). gwKey e \<noteq> k \<and> rumorId r \<noteq> k)"
  using assms
proof (induction ins arbitrary: s)
  case Nil
  then show ?case by simp
next
  case (Cons i ins)
  let ?s1 = "fst (step env i s)"
  from Cons.prems(1) have ne1: "not_evicted k (dedup_calls env i s) (globalSeen s)"
    and ne2: "not_evicted k (ledger_calls env ins ?s1) (globalSeen ?s1)"
    using not_evicted_step [of k env i ins s] by blast+
  from step_key_stays [OF ne1 Cons.prems(2)] have in1: "k \<in> set (globalSeen ?s1)" .
  note ih = Cons.IH [OF ne2 in1]
  have fst_eq: "fst (run env (i # ins) s) = fst (run env ins ?s1)"
    by (simp only: run_Cons fst_conv)
  have cb: "callbacks (snd (run env (i # ins) s)) =
              callbacks (snd (step env i s)) @ callbacks (snd (run env ins ?s1))"
    by (simp only: run_Cons snd_conv callbacks_append)
  from step_key_blocks [OF ne1 Cons.prems(2)] ih show ?case
    unfolding fst_eq cb by auto
qed

lemma run_key_once:
  assumes "not_evicted k (ledger_calls env ins s) (globalSeen s)"
  shows "length (filter (\<lambda>(e, r). gwKey e = k) (callbacks (snd (run env ins s)))) \<le> 1 \<and>
         length (filter (\<lambda>(e, r). rumorId r = k) (callbacks (snd (run env ins s)))) \<le> 1"
  using assms
proof (induction ins arbitrary: s)
  case Nil
  show ?case by simp
next
  case (Cons i ins)
  let ?s1 = "fst (step env i s)"
  let ?c1 = "callbacks (snd (step env i s))"
  let ?c2 = "callbacks (snd (run env ins ?s1))"
  from Cons.prems have ne2: "not_evicted k (ledger_calls env ins ?s1) (globalSeen ?s1)"
    using not_evicted_step [of k env i ins s] by blast
  have cb: "callbacks (snd (run env (i # ins) s)) = ?c1 @ ?c2"
    by (simp only: run_Cons snd_conv callbacks_append)
  have short: "length ?c1 \<le> 1" by (rule step_callbacks_short)
  show ?case
  proof (cases "\<exists>e r. (e, r) \<in> set ?c1 \<and> (gwKey e = k \<or> rumorId r = k)")
    case True
    then obtain e r where er: "(e, r) \<in> set ?c1" "gwKey e = k \<or> rumorId r = k" by blast
    from step_callback_keys [OF er(1)] er(2) have "k \<in> set (globalSeen ?s1)" by auto
    from run_key_blocks [OF ne2 this]
    have none: "\<forall>(e, r) \<in> set ?c2. gwKey e \<noteq> k \<and> rumorId r \<noteq> k" by simp
    then have e2: "filter (\<lambda>(e, r). gwKey e = k) ?c2 = []"
      "filter (\<lambda>(e, r). rumorId r = k) ?c2 = []"
      by (auto simp add: filter_empty_conv)
    have f1: "length (filter (\<lambda>(e, r). gwKey e = k) ?c1) \<le> 1"
      by (rule le_trans [OF length_filter_le short])
    have f2: "length (filter (\<lambda>(e, r). rumorId r = k) ?c1) \<le> 1"
      by (rule le_trans [OF length_filter_le short])
    from f1 f2 show ?thesis unfolding cb by (simp add: e2)
  next
    case False
    then have "filter (\<lambda>(e, r). gwKey e = k) ?c1 = []" "filter (\<lambda>(e, r). rumorId r = k) ?c1 = []"
      by (auto simp add: filter_empty_conv)
    with Cons.IH [OF ne2] show ?thesis unfolding cb by simp
  qed
qed

lemma run_delivered_key:
  assumes "not_evicted k (ledger_calls env ins s) (globalSeen s)"
    and "Deliver ev \<in> set ins" and "gwKey ev = k"
  shows "k \<in> set (globalSeen (fst (run env ins s)))"
  using assms
proof (induction ins arbitrary: s)
  case Nil
  then show ?case by simp
next
  case (Cons i ins)
  let ?s1 = "fst (step env i s)"
  from Cons.prems(1) have ne2: "not_evicted k (ledger_calls env ins ?s1) (globalSeen ?s1)"
    using not_evicted_step [of k env i ins s] by blast
  have fst_eq: "fst (run env (i # ins) s) = fst (run env ins ?s1)"
    by (simp only: run_Cons fst_conv)
  show ?case
  proof (cases "i = Deliver ev")
    case True
    with handleEvent_keeps_gw [of ev env s] Cons.prems(3) have "k \<in> set (globalSeen ?s1)"
      by simp
    from run_key_blocks [OF ne2 this] show ?thesis unfolding fst_eq by simp
  next
    case False
    with Cons.prems(2) have "Deliver ev \<in> set ins" by simp
    from Cons.IH [OF ne2 this Cons.prems(3)] show ?thesis unfolding fst_eq .
  qed
qed

lemma invocations_for_event_alt:
  "invocations_for_event i es =
     length (filter (\<lambda>(e, r). gwKey e = ''gw:'' @ i) (callbacks es))"
  unfolding invocations_for_event_def
  by (rule arg_cong [where f = length], rule filter_cong) (auto simp: gwKey_def)

text \<open>
  C1, as amended. In a run during which the key \<^verbatim>\<open>gw:<id>\<close> is not evicted from the
  ledger (no check-and-insert call of the run drops it), the message callback is invoked
  at most once for gift wraps with that identifier, whatever else the ledger holds and
  evicts; and after the run a further delivery of a gift wrap whose identifier was
  delivered in the run finds its key in the ledger: the handler returns at once, with no
  unwrap, no report and no change of state.
\<close>

theorem same_id_one_invocation:
  assumes "not_evicted (''gw:'' @ i) (ledger_calls env ins s) (globalSeen s)"
  shows "invocations_for_event i (snd (run env ins s)) \<le> 1 \<and>
         (Deliver ev \<in> set ins \<and> event_id ev = i \<and> event_id ev' = i \<longrightarrow>
            handleEvent env ev' (fst (run env ins s)) = (fst (run env ins s), []))"
proof
  from run_key_once [OF assms]
  show "invocations_for_event i (snd (run env ins s)) \<le> 1"
    unfolding invocations_for_event_alt by simp
next
  show "Deliver ev \<in> set ins \<and> event_id ev = i \<and> event_id ev' = i \<longrightarrow>
          handleEvent env ev' (fst (run env ins s)) = (fst (run env ins s), [])"
  proof
    assume a: "Deliver ev \<in> set ins \<and> event_id ev = i \<and> event_id ev' = i"
    then have "gwKey ev = ''gw:'' @ i" by (simp add: gwKey_def)
    from run_delivered_key [OF assms _ this] a
    have "''gw:'' @ i \<in> set (globalSeen (fst (run env ins s)))" by simp
    with a have "gwKey ev' \<in> set (globalSeen (fst (run env ins s)))"
      by (simp add: gwKey_def)
    then show "handleEvent env ev' (fst (run env ins s)) = (fst (run env ins s), [])"
      by (simp add: handleEvent_unfold)
  qed
qed

lemma same_rumor_rumorId: "same_rumor a b \<Longrightarrow> rumorId a = rumorId b"
  by (cases "rumor_id a"; cases "rumor_id b"; cases "rumor_content a"; cases "rumor_content b")
     (auto simp add: same_rumor_def has_id_def rumorId_def fallback_fingerprint_def
           split: if_splits)

lemma filter_two_le:
  assumes "\<forall>x \<in> set xs. \<not> (P x \<and> Q x)" and "\<forall>x \<in> set xs. P x \<or> Q x \<longrightarrow> R x"
  shows "length (filter P xs) + length (filter Q xs) \<le> length (filter R xs)"
  using assms by (induction xs) auto

text \<open>
  C2, as amended. In a run during which the rumor key is not evicted from the ledger, two
  gift wraps with different identifiers whose rumors are the same message (the same
  non-empty rumor identifier or, when both lack one, the same sender, timestamp and first
  32 characters of content) lead to at most one invocation of the message callback between
  them.
\<close>

theorem same_rumor_one_invocation:
  assumes "not_evicted (rumorId r1) (ledger_calls env ins s) (globalSeen s)"
    and "event_id e1 \<noteq> event_id e2"
    and "unwrapEvent env e1 = Inr r1" and "unwrapEvent env e2 = Inr r2"
    and "same_rumor r1 r2"
  shows "invocations_of e1 (snd (run env ins s)) + invocations_of e2 (snd (run env ins s)) \<le> 1"
proof -
  let ?cbs = "callbacks (snd (run env ins s))"
  let ?k = "rumorId r1"
  have k2: "rumorId r2 = ?k" using same_rumor_rumorId [OF assms(5)] by simp
  have unw: "\<And>e r. (e, r) \<in> set ?cbs \<Longrightarrow> unwrapEvent env e = Inr r"
    using run_callbacks by blast
  have disj: "\<forall>x \<in> set ?cbs. \<not> ((\<lambda>(e, r). e = e1) x \<and> (\<lambda>(e, r). e = e2) x)"
    using assms(2) by auto
  have sub: "\<forall>x \<in> set ?cbs. (\<lambda>(e, r). e = e1) x \<or> (\<lambda>(e, r). e = e2) x \<longrightarrow>
               (\<lambda>(e, r). rumorId r = ?k) x"
  proof
    fix x assume x: "x \<in> set ?cbs"
    obtain e r where xe: "x = (e, r)" by (cases x)
    from unw x xe have "unwrapEvent env e = Inr r" by simp
    with assms(3,4) k2 show "(\<lambda>(e, r). e = e1) x \<or> (\<lambda>(e, r). e = e2) x \<longrightarrow>
               (\<lambda>(e, r). rumorId r = ?k) x"
      unfolding xe by auto
  qed
  from run_key_once [OF assms(1)]
  have "length (filter (\<lambda>(e, r). rumorId r = ?k) ?cbs) \<le> 1" by simp
  with filter_two_le [OF disj sub]
  show ?thesis unfolding invocations_of_def by linarith
qed

text \<open>
  C10. The handler puts the key of a gift wrap into the ledger before it unwraps, so after
  the handler's step the key is in the ledger whatever the ledger held and whatever the
  unwrap gives. Until capacity eviction, that is in every run during which the key is not
  evicted, the key stays there through everything that follows the delivery, a rejected
  callback included, so that a later delivery of the same identifier adds nothing to the
  run: no callback, no report, no change of state.
\<close>

theorem failed_event_not_retried:
  "gwKey ev \<in> set (globalSeen (fst (handleEvent env ev s))) \<and>
   (not_evicted (gwKey ev) (ledger_calls env (Deliver ev # ins) s) (globalSeen s) \<and>
    event_id ev' = event_id ev \<longrightarrow>
      gwKey ev \<in> set (globalSeen (fst (run env (Deliver ev # ins) s))) \<and>
      run env ((Deliver ev # ins) @ [Deliver ev']) s = run env (Deliver ev # ins) s)"
proof (intro conjI impI)
  show "gwKey ev \<in> set (globalSeen (fst (handleEvent env ev s)))"
    by (rule handleEvent_keeps_gw)
next
  assume a: "not_evicted (gwKey ev) (ledger_calls env (Deliver ev # ins) s) (globalSeen s) \<and>
    event_id ev' = event_id ev"
  let ?s2 = "fst (run env (Deliver ev # ins) s)"
  from a have ne: "not_evicted (gwKey ev) (ledger_calls env (Deliver ev # ins) s) (globalSeen s)"
    by simp
  from run_delivered_key [OF ne, of ev]
  show b: "gwKey ev \<in> set (globalSeen ?s2)" by simp
  with a have "gwKey ev' \<in> set (globalSeen ?s2)" by (simp add: gwKey_def)
  then have "handleEvent env ev' ?s2 = (?s2, [])" by (simp add: handleEvent_unfold)
  then have "run env [Deliver ev'] ?s2 = (?s2, [])" by simp
  then show "run env ((Deliver ev # ins) @ [Deliver ev']) s = run env (Deliver ev # ins) s"
    by (simp only: run_append [of env "Deliver ev # ins"] fst_conv snd_conv append_Nil2
          prod.collapse)
qed

section \<open>A run in which the ledger overflows\<close>

lemma filler_unwrap: "unwrapEvent demo_env (filler_event n) = Inl ''invalid MAC''"
  by (simp add: demo_env_def demo_unwrap_def filler_event_def wrap_def filler_id_def)

lemma filler_key: "gwKey (filler_event n) = ''gw:'' @ filler_id n"
  by (simp add: gwKey_def filler_event_def wrap_def)

lemma filler_key_inj: "gwKey (filler_event m) = gwKey (filler_event n) \<longleftrightarrow> m = n"
  by (simp add: filler_key filler_id_inj)

lemma handleEvent_filler:
  assumes "gwKey (filler_event n) \<notin> set (globalSeen s)"
  shows "handleEvent demo_env (filler_event n) s =
           (s\<lparr>globalSeen := snd (globalDedup (gwKey (filler_event n)) (globalSeen s))\<rparr>,
            [OnError ''invalid MAC'' (''unwrap gift wrap '' @ filler_id n)])"
proof -
  have k: "event_kind (filler_event n) = 1059" "event_id (filler_event n) = filler_id n"
    by (simp_all add: filler_event_def wrap_def)
  have e: "onError_given demo_env" by (simp add: demo_env_def)
  from assms show ?thesis
    by (simp add: handleEvent_unfold filler_unwrap k report_def e)
qed

lemma filler_deliveries_Suc:
  "filler_deliveries 0 (Suc n) = filler_deliveries 0 n @ [Deliver (filler_event n)]"
  by (simp add: filler_deliveries_def)

lemma run_fillers:
  assumes "\<forall>i<n. gwKey (filler_event i) \<notin> set (globalSeen s)"
    and "length (globalSeen s) + n \<le> GLOBAL_SEEN_MAX"
  shows "fst (run demo_env (filler_deliveries 0 n) s) =
           s\<lparr>globalSeen := globalSeen s @ map (\<lambda>i. gwKey (filler_event i)) [0..<n]\<rparr> \<and>
         callbacks (snd (run demo_env (filler_deliveries 0 n) s)) = []"
  using assms
proof (induction n)
  case 0
  show ?case by (simp add: filler_deliveries_def)
next
  case (Suc n)
  let ?L = "globalSeen s @ map (\<lambda>i. gwKey (filler_event i)) [0..<n]"
  let ?s' = "s\<lparr>globalSeen := ?L\<rparr>"
  from Suc.prems have ih: "fst (run demo_env (filler_deliveries 0 n) s) = ?s'"
    "callbacks (snd (run demo_env (filler_deliveries 0 n) s)) = []"
    using Suc.IH by simp_all
  from Suc.prems(1) have fresh: "gwKey (filler_event n) \<notin> set ?L"
    by (auto simp add: filler_key_inj)
  then have fresh': "gwKey (filler_event n) \<notin> set (globalSeen ?s')" by simp
  from Suc.prems(2) have room: "length ?L < GLOBAL_SEEN_MAX" by simp
  have h: "handleEvent demo_env (filler_event n) ?s' =
      (?s'\<lparr>globalSeen := ?L @ [gwKey (filler_event n)]\<rparr>,
       [OnError ''invalid MAC'' (''unwrap gift wrap '' @ filler_id n)])"
    using handleEvent_filler [OF fresh'] globalDedup_fresh_room [OF fresh room] by simp
  show ?case
    unfolding filler_deliveries_Suc run_append ih
    by (simp add: h callbacks_append ih)
qed


lemma filler_keys_other:
  "''gw:a'' \<notin> set (map (\<lambda>i. gwKey (filler_event i)) xs)"
  "''gw:b'' \<notin> set (map (\<lambda>i. gwKey (filler_event i)) xs)"
  "''rumor:r1'' \<notin> set (map (\<lambda>i. gwKey (filler_event i)) xs)"
  by (auto simp add: filler_key filler_id_def)

lemma overflow_ledger:
  "drop 4001 ([''gw:a'', ''rumor:r1''] @ map (\<lambda>i. gwKey (filler_event i)) [0..<19998] @
              [gwKey (filler_event 19998)]) =
   drop 3999 (map (\<lambda>i. gwKey (filler_event i)) [0..<19999])"
proof -
  have "[0..<19999] = [0..<19998] @ [19998::nat]"
    using upt_Suc_append [of 0 19998] by simp
  then show ?thesis by simp
qed

lemma second_invocation_after_overflow:
  assumes "i = ''a'' \<or> i = ''b''"
  shows "callbacks (snd (run demo_env
           (Deliver (wrap ''a'' t) # filler_deliveries 0 19999 @ [Deliver (wrap i t')]) fresh_bus)) =
         [(wrap ''a'' t, chat ''r1'' ''alice'' 1699999950),
          (wrap i t', chat ''r1'' ''alice'' 1699999950)]"
proof -
  let ?r = "chat ''r1'' ''alice'' 1699999950"
  let ?fk = "\<lambda>i. gwKey (filler_event i)"
  let ?sA = "fresh_bus\<lparr>globalSeen := [''gw:a'', ''rumor:r1''], pending := [(wrap ''a'' t, ?r)]\<rparr>"
  let ?LB = "[''gw:a'', ''rumor:r1''] @ map ?fk [0..<19998]"
  let ?sB = "?sA\<lparr>globalSeen := ?LB\<rparr>"
  let ?LC = "drop 3999 (map ?fk [0..<19999])"
  let ?sC = "?sB\<lparr>globalSeen := ?LC\<rparr>"
  have A: "handleEvent demo_env (wrap ''a'' t) fresh_bus = (?sA, [OnMessage (wrap ''a'' t) ?r])"
    by (simp add: handleEvent_unfold demo_env_def demo_unwrap_def wrap_def chat_def fresh_bus_def
          gwKey_def rumorId_def globalDedup_def GLOBAL_SEEN_MAX_def js_gt_def)
  have seenA: "globalSeen ?sA = [''gw:a'', ''rumor:r1'']" by simp
  have B: "fst (run demo_env (filler_deliveries 0 19998) ?sA) = ?sB \<and>
           callbacks (snd (run demo_env (filler_deliveries 0 19998) ?sA)) = []"
    using run_fillers [of 19998 ?sA]
    by (simp add: filler_key filler_id_def GLOBAL_SEEN_MAX_def)
  have "?fk 19998 \<notin> set (map ?fk [0..<19998])"
    by (auto simp add: filler_key_inj)
  moreover have "?fk 19998 \<noteq> ''gw:a''" "?fk 19998 \<noteq> ''rumor:r1''"
    using filler_keys_other [of "[19998]"] by auto
  ultimately have freshB: "?fk 19998 \<notin> set (globalSeen ?sB)"
    by simp
  have fullB: "length ?LB \<ge> GLOBAL_SEEN_MAX" by (simp add: GLOBAL_SEEN_MAX_def)
  have "snd (globalDedup (?fk 19998) ?LB) = drop 4001 (?LB @ [?fk 19998])"
    using globalDedup_fresh_full [OF _ fullB, of "?fk 19998"] freshB
    by (simp add: GLOBAL_SEEN_KEEP_def GLOBAL_SEEN_MAX_def)
  then have dC: "snd (globalDedup (?fk 19998) (globalSeen ?sB)) = ?LC"
    using overflow_ledger by simp
  have C: "handleEvent demo_env (filler_event 19998) ?sB =
             (?sC, [OnError ''invalid MAC'' (''unwrap gift wrap '' @ filler_id 19998)])"
    unfolding handleEvent_filler [OF freshB] dC by simp
  have lenC: "length ?LC < GLOBAL_SEEN_MAX" by (simp add: GLOBAL_SEEN_MAX_def)
  have notin: "''gw:a'' \<notin> set ?LC" "''gw:b'' \<notin> set ?LC" "''rumor:r1'' \<notin> set ?LC"
    using filler_keys_other [of "[0..<19999]"] by (auto dest: in_set_dropD)
  have D: "handleEvent demo_env (wrap i t') ?sC =
             (?sC\<lparr>globalSeen := ?LC @ [''gw:'' @ i, ''rumor:r1''],
                   pending := [(wrap ''a'' t, ?r), (wrap i t', ?r)]\<rparr>,
              [OnMessage (wrap i t') ?r])"
    using assms notin
    by (auto simp add: handleEvent_unfold globalDedup_room [OF lenC] GLOBAL_SEEN_MAX_def
          demo_env_def demo_unwrap_def wrap_def chat_def fresh_bus_def gwKey_def rumorId_def
          globalDedup_def js_gt_def)
  have list_eq: "Deliver (wrap ''a'' t) # filler_deliveries 0 19999 @ [Deliver (wrap i t')] =
      Deliver (wrap ''a'' t) #
        (filler_deliveries 0 19998 @ [Deliver (filler_event 19998), Deliver (wrap i t')])"
    using filler_deliveries_Suc [of 19998] by simp
  have t34: "callbacks (snd (run demo_env [Deliver (filler_event 19998), Deliver (wrap i t')] ?sB)) =
      [(wrap i t', ?r)]"
    by (simp only: run_Cons step.simps C D fst_conv snd_conv callbacks_append callbacks.simps
          run.simps(1) append_Nil append_Nil2)
  have t234: "callbacks (snd (run demo_env
      (filler_deliveries 0 19998 @ [Deliver (filler_event 19998), Deliver (wrap i t')]) ?sA)) =
      [(wrap i t', ?r)]"
    by (simp only: run_append [of demo_env "filler_deliveries 0 19998"] B snd_conv
          callbacks_append t34 append_Nil)
  show ?thesis
    unfolding list_eq
    by (simp only: run_Cons [of demo_env "Deliver (wrap ''a'' t)"] step.simps A fst_conv snd_conv
          callbacks_append callbacks.simps t234 append_Cons append_Nil)
qed


text \<open>
  C1 as stated fails. A fresh bus receives the gift wrap \<^verbatim>\<open>a\<close>, whose callback is invoked
  and has not settled; 19999 gift wraps for other recipients follow, the last of which
  makes the ledger exceed 20000 keys, so that the 4001 oldest keys, \<^verbatim>\<open>gw:a\<close> and
  \<^verbatim>\<open>rumor:r1\<close> among them, are dropped; the gift wrap \<^verbatim>\<open>a\<close> is delivered again, and the
  callback is invoked a second time.
\<close>

theorem same_id_invoked_twice_counterexample:
  "invocations_for_event ''a''
     (snd (run demo_env
        (Deliver (wrap ''a'' 1699900001) # filler_deliveries 0 19999 @
         [Deliver (wrap ''a'' 1699900001)]) fresh_bus)) = 2"
proof -
  have cb: "callbacks (snd (run demo_env
        (Deliver (wrap ''a'' 1699900001) # filler_deliveries 0 19999 @
         [Deliver (wrap ''a'' 1699900001)]) fresh_bus)) =
      [(wrap ''a'' 1699900001, chat ''r1'' ''alice'' 1699999950),
       (wrap ''a'' 1699900001, chat ''r1'' ''alice'' 1699999950)]"
    by (rule second_invocation_after_overflow) simp
  show ?thesis unfolding invocations_for_event_def cb by (simp add: wrap_def)
qed

text \<open>
  C2 as stated fails in the same way: after the overflow the gift wrap \<^verbatim>\<open>b\<close>, which
  carries the rumor \<^verbatim>\<open>r1\<close> that \<^verbatim>\<open>a\<close> carried, passes the rumor-level check.
\<close>

theorem same_rumor_invoked_twice_counterexample:
  "event_id (wrap ''a'' 1699900001) \<noteq> event_id (wrap ''b'' 1699900002) \<and>
   unwrapEvent demo_env (wrap ''a'' 1699900001) = Inr (chat ''r1'' ''alice'' 1699999950) \<and>
   unwrapEvent demo_env (wrap ''b'' 1699900002) = Inr (chat ''r1'' ''alice'' 1699999950) \<and>
   rumor_id (chat ''r1'' ''alice'' 1699999950) = Some ''r1'' \<and>
   invocations_of (wrap ''a'' 1699900001)
     (snd (run demo_env
        (Deliver (wrap ''a'' 1699900001) # filler_deliveries 0 19999 @
         [Deliver (wrap ''b'' 1699900002)]) fresh_bus)) +
   invocations_of (wrap ''b'' 1699900002)
     (snd (run demo_env
        (Deliver (wrap ''a'' 1699900001) # filler_deliveries 0 19999 @
         [Deliver (wrap ''b'' 1699900002)]) fresh_bus)) = 2"
proof -
  have cb: "callbacks (snd (run demo_env
        (Deliver (wrap ''a'' 1699900001) # filler_deliveries 0 19999 @
         [Deliver (wrap ''b'' 1699900002)]) fresh_bus)) =
      [(wrap ''a'' 1699900001, chat ''r1'' ''alice'' 1699999950),
       (wrap ''b'' 1699900002, chat ''r1'' ''alice'' 1699999950)]"
    by (rule second_invocation_after_overflow) simp
  show ?thesis unfolding invocations_of_def cb
    by (simp add: wrap_def chat_def demo_env_def demo_unwrap_def)
qed

section \<open>Runs that keep a key: short runs, and a run through an overflow\<close>

lemma dedup_calls_length: "length (dedup_calls env i s) \<le> 2"
  by (cases i) (simp_all add: dedup_calls_def split: sum.splits)

lemma ledger_calls_length: "length (ledger_calls env ins s) \<le> 2 * length ins"
proof (induction ins arbitrary: s)
  case Nil
  show ?case by simp
next
  case (Cons i ins)
  from Cons.IH [of "fst (step env i s)"] dedup_calls_length [of env i s]
  show ?case by simp
qed

lemma not_evicted_short_run:
  assumes "length (globalSeen s) + 2 * length ins \<le> GLOBAL_SEEN_MAX"
  shows "not_evicted k (ledger_calls env ins s) (globalSeen s)"
proof (rule not_evicted_room)
  from assms ledger_calls_length [of env ins s]
  show "length (globalSeen s) + length (ledger_calls env ins s) \<le> GLOBAL_SEEN_MAX" by simp
qed

lemma ledger_calls_append:
  "ledger_calls env (xs @ ys) s = ledger_calls env xs s @ ledger_calls env ys (fst (run env xs s))"
proof (induction xs arbitrary: s)
  case Nil
  show ?case by simp
next
  case (Cons i xs)
  show ?case
    by (simp only: append_Cons ledger_calls.simps Cons.IH run_Cons fst_conv append_assoc)
qed

lemma globalDedup_subset: "set (snd (globalDedup key seen)) \<subseteq> insert key (set seen)"
proof (cases "key \<in> set seen")
  case True
  then show ?thesis by (auto simp add: globalDedup_seen)
next
  case False
  then show ?thesis
    by (auto simp add: globalDedup_def Let_def trim_loop_drop dest: in_set_dropD)
qed

lemma not_evicted_absent:
  "k \<notin> set seen \<Longrightarrow> k \<notin> set keys \<Longrightarrow> not_evicted k keys seen"
proof (induction keys arbitrary: seen)
  case Nil
  show ?case by simp
next
  case (Cons key keys)
  from Cons.prems globalDedup_subset [of key seen]
  have "k \<notin> set (snd (globalDedup key seen))" by auto
  with Cons show ?case by simp
qed

lemma dedup_calls_filler:
  "dedup_calls demo_env (Deliver (filler_event n)) s = [gwKey (filler_event n)]"
  by (simp add: dedup_calls_def filler_unwrap)

lemma ledger_calls_fillers:
  assumes "\<forall>i<n. gwKey (filler_event i) \<notin> set (globalSeen s)"
    and "length (globalSeen s) + n \<le> GLOBAL_SEEN_MAX"
  shows "ledger_calls demo_env (filler_deliveries 0 n) s = map (\<lambda>i. gwKey (filler_event i)) [0..<n]"
  using assms
proof (induction n)
  case 0
  show ?case by (simp add: filler_deliveries_def)
next
  case (Suc n)
  from Suc.prems have ih: "ledger_calls demo_env (filler_deliveries 0 n) s =
      map (\<lambda>i. gwKey (filler_event i)) [0..<n]"
    using Suc.IH by simp
  show ?case
    unfolding filler_deliveries_Suc ledger_calls_append ih
    by (simp add: dedup_calls_filler)
qed

text \<open>
  A fresh bus receives 19998 gift wraps for other recipients, then the gift wrap \<^verbatim>\<open>a\<close>,
  whose two keys fill the ledger to its 20000 entries, then one more gift wrap for another
  recipient, which makes the ledger overflow: the 4001 oldest keys are dropped, and the
  key \<^verbatim>\<open>gw:a\<close> is not among them. The gift wrap \<^verbatim>\<open>a\<close> is then delivered again.
\<close>

lemma run_through_overflow:
  "not_evicted ''gw:a''
     (ledger_calls demo_env
        (filler_deliveries 0 19998 @
         [Deliver (wrap ''a'' 1699900001), Deliver (filler_event 19998),
          Deliver (wrap ''a'' 1699900001)]) fresh_bus)
     (globalSeen fresh_bus) \<and>
   length (globalSeen (fst (run demo_env
        (filler_deliveries 0 19998 @
         [Deliver (wrap ''a'' 1699900001), Deliver (filler_event 19998)]) fresh_bus))) = 16000"
proof -
  let ?A = "wrap ''a'' 1699900001"
  let ?r = "chat ''r1'' ''alice'' 1699999950"
  let ?fk = "\<lambda>i. gwKey (filler_event i)"
  let ?L = "map ?fk [0..<19998]"
  let ?sF = "fresh_bus\<lparr>globalSeen := ?L\<rparr>"
  let ?L1 = "?L @ [''gw:a'', ''rumor:r1'']"
  let ?s1 = "?sF\<lparr>globalSeen := ?L1, pending := [(?A, ?r)]\<rparr>"
  let ?L2 = "drop 4001 ?L @ [''gw:a'', ''rumor:r1'', ?fk 19998]"
  let ?s2 = "?s1\<lparr>globalSeen := ?L2\<rparr>"
  have seen0: "globalSeen fresh_bus = []" by (simp add: fresh_bus_def)
  have F: "fst (run demo_env (filler_deliveries 0 19998) fresh_bus) = ?sF"
    using run_fillers [of 19998 fresh_bus] by (simp add: seen0 GLOBAL_SEEN_MAX_def)
  have FC: "ledger_calls demo_env (filler_deliveries 0 19998) fresh_bus = ?L"
    using ledger_calls_fillers [of 19998 fresh_bus] by (simp add: seen0 GLOBAL_SEEN_MAX_def)
  have notin: "''gw:a'' \<notin> set ?L" "''rumor:r1'' \<notin> set ?L"
    using filler_keys_other [of "[0..<19998]"] by simp_all
  have lenL: "length ?L = 19998" by simp
  have d1: "snd (globalDedup ''gw:a'' ?L) = ?L @ [''gw:a'']"
    using notin by (simp add: globalDedup_room GLOBAL_SEEN_MAX_def)
  have d2: "snd (globalDedup ''rumor:r1'' (?L @ [''gw:a''])) = ?L1"
    using notin by (simp add: globalDedup_room GLOBAL_SEEN_MAX_def)
  have fresh3: "?fk 19998 \<notin> set ?L1"
  proof -
    have "?fk 19998 \<notin> set ?L" by (auto simp add: filler_key_inj)
    moreover have "?fk 19998 \<noteq> ''gw:a''" "?fk 19998 \<noteq> ''rumor:r1''"
      using filler_keys_other [of "[19998]"] by auto
    ultimately show ?thesis by simp
  qed
  have full3: "length ?L1 \<ge> GLOBAL_SEEN_MAX" by (simp add: GLOBAL_SEEN_MAX_def)
  have d3: "snd (globalDedup (?fk 19998) ?L1) = ?L2"
    using globalDedup_fresh_full [OF fresh3 full3]
    by (simp add: GLOBAL_SEEN_KEEP_def GLOBAL_SEEN_MAX_def)
  have d4: "snd (globalDedup ''gw:a'' ?L2) = ?L2"
    by (simp add: globalDedup_seen)
  have kA: "gwKey ?A = ''gw:a''" "event_kind ?A = 1059"
    by (simp_all add: gwKey_def wrap_def)
  have uA: "unwrapEvent demo_env ?A = Inr ?r"
    by (simp add: demo_env_def demo_unwrap_def wrap_def)
  have kr: "rumorId ?r = ''rumor:r1''" "rumor_kind ?r = 14" "rumor_pubkey ?r \<noteq> pk demo_env"
    by (simp_all add: rumorId_def chat_def demo_env_def)
  have w0: "var_lastRumorAt ?sF = Num 0" by (simp add: fresh_bus_def)
  have p0: "pending ?sF = []" by (simp add: fresh_bus_def)
  have A1: "handleEvent demo_env ?A ?sF = (?s1, [OnMessage ?A ?r])"
    using notin
    by (simp add: handleEvent_unfold kA uA kr d1 d2 w0 p0 js_gt_def)
  have c1: "dedup_calls demo_env (Deliver ?A) ?sF = [''gw:a'', ''rumor:r1'']"
    using notin by (simp add: dedup_calls_def kA uA kr)
  have fresh3': "?fk 19998 \<notin> set (globalSeen ?s1)" using fresh3 by simp
  have A2: "fst (handleEvent demo_env (filler_event 19998) ?s1) = ?s2"
    unfolding handleEvent_filler [OF fresh3'] using d3 by simp
  have c2: "dedup_calls demo_env (Deliver (filler_event 19998)) ?s1 = [?fk 19998]"
    by (rule dedup_calls_filler)
  have c3: "dedup_calls demo_env (Deliver ?A) ?s2 = [''gw:a'']"
    by (simp add: dedup_calls_def kA)
  have tail: "ledger_calls demo_env [Deliver ?A, Deliver (filler_event 19998), Deliver ?A] ?sF =
      [''gw:a'', ''rumor:r1'', ?fk 19998, ''gw:a'']"
    by (simp only: ledger_calls.simps step.simps A1 A2 c1 c2 c3 fst_conv append_Cons append_Nil)
  have calls: "ledger_calls demo_env
        (filler_deliveries 0 19998 @ [Deliver ?A, Deliver (filler_event 19998), Deliver ?A])
        fresh_bus = ?L @ [''gw:a'', ''rumor:r1'', ?fk 19998, ''gw:a'']"
    by (simp only: ledger_calls_append FC F tail)
  have after: "foldl (\<lambda>seen k. snd (globalDedup k seen)) [] ?L = ?L"
    using foldl_globalDedup_distinct [of "[]" ?L]
    by (simp add: distinct_map inj_on_def filler_key_inj GLOBAL_SEEN_MAX_def)
  have first: "not_evicted ''gw:a'' ?L []"
    using notin by (simp add: not_evicted_absent)
  have mem: "''gw:a'' \<in> set ?L2" by simp
  have second: "not_evicted ''gw:a'' [''gw:a'', ''rumor:r1'', ?fk 19998, ''gw:a''] ?L"
    using mem by (simp only: not_evicted.simps d1 d2 d3 d4) simp
  have ne: "not_evicted ''gw:a''
     (ledger_calls demo_env
        (filler_deliveries 0 19998 @ [Deliver ?A, Deliver (filler_event 19998), Deliver ?A])
        fresh_bus) (globalSeen fresh_bus)"
    unfolding calls seen0 not_evicted_append after using first second by simp
  have "fst (run demo_env [Deliver ?A, Deliver (filler_event 19998)] ?sF) = ?s2"
    by (simp only: run_Cons run.simps(1) step.simps A1 A2 fst_conv)
  then have "fst (run demo_env
        (filler_deliveries 0 19998 @ [Deliver ?A, Deliver (filler_event 19998)]) fresh_bus) = ?s2"
    by (simp only: run_append F fst_conv)
  then have len: "length (globalSeen (fst (run demo_env
        (filler_deliveries 0 19998 @ [Deliver ?A, Deliver (filler_event 19998)]) fresh_bus))) =
      16000"
    by simp
  from ne len show ?thesis by simp
qed

theorem same_id_one_invocation_witness:
  "not_evicted (''gw:'' @ ''a'')
     (ledger_calls demo_env
        (filler_deliveries 0 19998 @
         [Deliver (wrap ''a'' 1699900001), Deliver (filler_event 19998),
          Deliver (wrap ''a'' 1699900001)]) fresh_bus)
     (globalSeen fresh_bus) \<and>
   length (globalSeen (fst (run demo_env
        (filler_deliveries 0 19998 @
         [Deliver (wrap ''a'' 1699900001), Deliver (filler_event 19998)]) fresh_bus))) = 16000 \<and>
   invocations_for_event ''a''
     (snd (run demo_env
        (filler_deliveries 0 19998 @
         [Deliver (wrap ''a'' 1699900001), Deliver (filler_event 19998),
          Deliver (wrap ''a'' 1699900001)]) fresh_bus)) \<le> 1 \<and>
   handleEvent demo_env (wrap ''a'' 1699900009)
     (fst (run demo_env
        (filler_deliveries 0 19998 @
         [Deliver (wrap ''a'' 1699900001), Deliver (filler_event 19998),
          Deliver (wrap ''a'' 1699900001)]) fresh_bus)) =
   (fst (run demo_env
        (filler_deliveries 0 19998 @
         [Deliver (wrap ''a'' 1699900001), Deliver (filler_event 19998),
          Deliver (wrap ''a'' 1699900001)]) fresh_bus), [])"
proof -
  let ?ins = "filler_deliveries 0 19998 @
         [Deliver (wrap ''a'' 1699900001), Deliver (filler_event 19998),
          Deliver (wrap ''a'' 1699900001)]"
  have h: "not_evicted (''gw:'' @ ''a'') (ledger_calls demo_env ?ins fresh_bus) (globalSeen fresh_bus)"
    using run_through_overflow by simp
  have m: "Deliver (wrap ''a'' 1699900001) \<in> set ?ins" by simp
  have i: "event_id (wrap ''a'' 1699900001) = ''a''" "event_id (wrap ''a'' 1699900009) = ''a''"
    by (simp_all add: wrap_def)
  from same_id_one_invocation
         [OF h, of "wrap ''a'' 1699900001" "wrap ''a'' 1699900009"] h m i run_through_overflow
  show ?thesis by blast
qed

theorem same_rumor_one_invocation_witness:
  "not_evicted (rumorId (chat ''r1'' ''alice'' 1699999950))
     (ledger_calls demo_env [Deliver (wrap ''a'' 1699900001), Deliver (wrap ''b'' 1699900002)]
        fresh_bus) (globalSeen fresh_bus) \<and>
   event_id (wrap ''a'' 1699900001) \<noteq> event_id (wrap ''b'' 1699900002) \<and>
   unwrapEvent demo_env (wrap ''a'' 1699900001) = Inr (chat ''r1'' ''alice'' 1699999950) \<and>
   unwrapEvent demo_env (wrap ''b'' 1699900002) = Inr (chat ''r1'' ''alice'' 1699999950) \<and>
   same_rumor (chat ''r1'' ''alice'' 1699999950) (chat ''r1'' ''alice'' 1699999950) \<and>
   invocations_of (wrap ''a'' 1699900001)
     (snd (run demo_env [Deliver (wrap ''a'' 1699900001), Deliver (wrap ''b'' 1699900002)]
        fresh_bus)) +
   invocations_of (wrap ''b'' 1699900002)
     (snd (run demo_env [Deliver (wrap ''a'' 1699900001), Deliver (wrap ''b'' 1699900002)]
        fresh_bus)) \<le> 1"
proof -
  let ?ins = "[Deliver (wrap ''a'' 1699900001), Deliver (wrap ''b'' 1699900002)]"
  have h: "not_evicted (rumorId (chat ''r1'' ''alice'' 1699999950))
             (ledger_calls demo_env ?ins fresh_bus) (globalSeen fresh_bus)"
    by (rule not_evicted_short_run) (simp add: fresh_bus_def GLOBAL_SEEN_MAX_def)
  have d: "event_id (wrap ''a'' 1699900001) \<noteq> event_id (wrap ''b'' 1699900002)"
    by (simp add: wrap_def)
  have u1: "unwrapEvent demo_env (wrap ''a'' 1699900001) = Inr (chat ''r1'' ''alice'' 1699999950)"
    by (simp add: demo_env_def demo_unwrap_def wrap_def)
  have u2: "unwrapEvent demo_env (wrap ''b'' 1699900002) = Inr (chat ''r1'' ''alice'' 1699999950)"
    by (simp add: demo_env_def demo_unwrap_def wrap_def)
  have sr: "same_rumor (chat ''r1'' ''alice'' 1699999950) (chat ''r1'' ''alice'' 1699999950)"
    by (simp add: same_rumor_def has_id_def chat_def)
  from same_rumor_one_invocation [OF h d u1 u2 sr] h d u1 u2 sr show ?thesis by blast
qed

theorem failed_event_not_retried_witness:
  "not_evicted (gwKey (wrap ''zz'' 5))
     (ledger_calls demo_env
        (Deliver (wrap ''zz'' 5) #
         [Deliver (wrap ''a'' 1699900001), Settle 0 (Rejected ''handler failed'')]) fresh_bus)
     (globalSeen fresh_bus) \<and>
   unwrapEvent demo_env (wrap ''zz'' 5) = Inl ''invalid MAC'' \<and>
   gwKey (wrap ''zz'' 5) \<in> set (globalSeen (fst (handleEvent demo_env (wrap ''zz'' 5) fresh_bus))) \<and>
   gwKey (wrap ''zz'' 5) \<in>
     set (globalSeen (fst (run demo_env
       (Deliver (wrap ''zz'' 5) #
        [Deliver (wrap ''a'' 1699900001), Settle 0 (Rejected ''handler failed'')]) fresh_bus))) \<and>
   run demo_env
     ((Deliver (wrap ''zz'' 5) #
       [Deliver (wrap ''a'' 1699900001), Settle 0 (Rejected ''handler failed'')]) @
      [Deliver (wrap ''zz'' 5)]) fresh_bus =
   run demo_env
     (Deliver (wrap ''zz'' 5) #
      [Deliver (wrap ''a'' 1699900001), Settle 0 (Rejected ''handler failed'')]) fresh_bus"
proof -
  let ?ins = "[Deliver (wrap ''a'' 1699900001), Settle 0 (Rejected ''handler failed'')]"
  have h: "not_evicted (gwKey (wrap ''zz'' 5))
             (ledger_calls demo_env (Deliver (wrap ''zz'' 5) # ?ins) fresh_bus)
             (globalSeen fresh_bus)"
    by (rule not_evicted_short_run) (simp add: fresh_bus_def GLOBAL_SEEN_MAX_def)
  have u: "unwrapEvent demo_env (wrap ''zz'' 5) = Inl ''invalid MAC''"
    by (simp add: demo_env_def demo_unwrap_def wrap_def)
  from failed_event_not_retried [of "wrap ''zz'' 5" demo_env fresh_bus ?ins "wrap ''zz'' 5"] h u
  show ?thesis by blast
qed

lemma rejected_callback_example:
  "snd (run demo_env [Deliver (wrap ''a'' 1699900001), Settle 0 (Rejected ''handler failed''),
                      Deliver (wrap ''a'' 1699900001)] fresh_bus) =
   [OnMessage (wrap ''a'' 1699900001) (chat ''r1'' ''alice'' 1699999950),
    OnError ''handler failed'' ''event a'']"
  by (simp add: handleEvent_unfold resumeEvent_def demo_env_def demo_unwrap_def wrap_def chat_def
        fresh_bus_def gwKey_def rumorId_def globalDedup_def GLOBAL_SEEN_MAX_def report_def
        js_gt_def)

section \<open>Startup\<close>

text \<open>
  C6 as stated fails for \<^verbatim>\<open>computeSinceTimestamp\<close>: a state file whose watermark
  \<^verbatim>\<open>lastProcessedAt\<close> is present with the value 0 yields the gateway start time, not the
  watermark.
\<close>

theorem zero_watermark_counterexample:
  "lastProcessedAt zero_watermark_state = 0 \<and>
   computeSinceTimestamp (Some zero_watermark_state) 1700000000 = 1700000000 \<and>
   computeSinceTimestamp (Some zero_watermark_state) 1700000000 \<noteq>
     lastProcessedAt zero_watermark_state"
  by (simp add: computeSinceTimestamp_def zero_watermark_state_def)

text \<open>
  C6, as amended. A bus that starts subscribes with \<^verbatim>\<open>since\<close> equal to
  \<open>max(0, computeSinceTimestamp(state, gatewayStartedAt) - 172800)\<close>, where
  \<^verbatim>\<open>computeSinceTimestamp\<close> returns the persisted \<^verbatim>\<open>lastProcessedAt\<close> when a state was read
  and the watermark is not 0, and the gateway start time otherwise.
\<close>

theorem startup_since:
  "(startNip17Bus env gatewayStarted state wr seen = Started b flt \<longrightarrow>
      since flt = max 0 (computeSinceTimestamp state gatewayStarted - 172800) \<and>
      kinds flt = [1059] \<and> p_tag flt = [pk env]) \<and>
   computeSinceTimestamp None gatewayStarted = gatewayStarted \<and>
   (lastProcessedAt st \<noteq> 0 \<longrightarrow>
      computeSinceTimestamp (Some st) gatewayStarted = lastProcessedAt st) \<and>
   (lastProcessedAt st = 0 \<longrightarrow> computeSinceTimestamp (Some st) gatewayStarted = gatewayStarted)"
  by (auto simp add: startNip17Bus_def Let_def STARTUP_LOOKBACK_SEC_def computeSinceTimestamp_def
        split: option.splits)

theorem startup_since_witness:
  "startNip17Bus demo_env 1700000000 (Some earlier_state) None [] =
     Started restarted_bus \<lparr>kinds = [1059], p_tag = [''me''], since = 1699817200\<rparr> \<and>
   lastProcessedAt earlier_state \<noteq> 0 \<and>
   lastProcessedAt zero_watermark_state = 0 \<and>
   since \<lparr>kinds = [1059], p_tag = [''me''], since = 1699817200\<rparr> =
     max 0 (computeSinceTimestamp (Some earlier_state) 1700000000 - 172800) \<and>
   computeSinceTimestamp (Some earlier_state) 1700000000 = lastProcessedAt earlier_state \<and>
   computeSinceTimestamp (Some zero_watermark_state) 1700000000 = 1700000000"
proof -
  have n: "lastProcessedAt earlier_state \<noteq> 0" by (simp add: earlier_state_def)
  have z: "lastProcessedAt zero_watermark_state = 0" by (simp add: zero_watermark_state_def)
  from startup_since [of demo_env 1700000000 "Some earlier_state" None "[]" restarted_bus
         "\<lparr>kinds = [1059], p_tag = [''me''], since = 1699817200\<rparr>" earlier_state]
       startup_since [of demo_env 1700000000 "Some earlier_state" None "[]" restarted_bus
         "\<lparr>kinds = [1059], p_tag = [''me''], since = 1699817200\<rparr>" zero_watermark_state]
       start_again n z
  show ?thesis by blast
qed
section \<open>Sending\<close>

lemma publishes_append: "publishes (a @ b) = publishes a @ publishes b"
  by (induction a rule: publishes.induct) simp_all

lemma errors_append: "errors (a @ b) = errors a @ errors b"
  by (induction a rule: errors.induct) simp_all

lemma publishes_Publish: "publishes (map (\<lambda>(relay, w). Publish relay w) as) = as"
  by (induction as) auto

lemma errors_Publish: "errors (map (\<lambda>(relay, w). Publish relay w) as) = []"
  by (induction as) auto

lemma publishes_report: "publishes (report env err ctx) = []"
  by (simp add: report_def)

lemma errors_report:
  "errors (report env err ctx) = (if onError_given env then [(err, ctx)] else [])"
  by (simp add: report_def)

lemma publishAttempts_eq:
  "publishAttempts rs w1 w2 = map (\<lambda>relay. (relay, w1)) rs @ map (\<lambda>relay. (relay, w2)) rs"
  by (simp add: publishAttempts_def)

lemma reasons_all_fulfilled: "\<forall>r \<in> set rs. r = Fulfilled \<Longrightarrow> reasons rs = []"
  by (induction rs rule: reasons.induct) simp_all

lemma allSettled_arrays:
  "\<forall>r \<in> set (allSettled (publishPromises outcome attempts)). r = Fulfilled"
  by (auto simp add: allSettled_def publishPromises_def)

lemma allSettled_length:
  "length (allSettled (publishPromises outcome attempts)) = length attempts"
  by (simp add: allSettled_def publishPromises_def)

lemma no_failures: "reasons (allSettled (publishPromises outcome attempts)) = []"
  by (rule reasons_all_fulfilled) (rule allSettled_arrays)

lemma sendNip17Dm_eq:
  assumes "createWraps toPubkey text = Inr (w1, w2)"
  shows "sendNip17Dm env createWraps outcome toPubkey text =
           Inr (map (\<lambda>(relay, w). Publish relay w) (publishAttempts (relays env) w1 w2))"
  using assms by (simp add: sendNip17Dm_def Let_def no_failures)

lemma sendNip17Dm_legacy_eq:
  assumes "createWraps toPubkey text = Inr (w1, w2)"
  shows "sendNip17Dm_legacy env createWraps outcome toPubkey text =
           Inr (map (\<lambda>(relay, w). Publish relay w) (publishAttempts (relays env) w1 w2) @
                report env
                  (''Publish results: '' @ show_nat (2 * length (relays env)) @ '' total, '' @
                   show_nat (2 * length (relays env)) @ '' success, '' @ show_nat 0 @ '' failed'')
                  ''publish'')"
proof -
  let ?res = "allSettled (publishPromises outcome (publishAttempts (relays env) w1 w2))"
  have len: "length ?res = 2 * length (relays env)"
    by (simp add: allSettled_length publishAttempts_eq)
  have "filter (\<lambda>r. r = Fulfilled) ?res = ?res"
    using allSettled_arrays [of outcome "publishAttempts (relays env) w1 w2"]
    by (simp add: filter_id_conv)
  then have ok: "length (filter (\<lambda>r. r = Fulfilled) ?res) = 2 * length (relays env)"
    using len by simp
  from assms show ?thesis
    by (simp add: sendNip17Dm_legacy_def Let_def no_failures len ok)
qed

text \<open>
  C5 as stated fails. A send to a recipient that is no public key throws when the seal
  for the recipient is made, before anything is published: with two relays configured,
  none of the four publishes is attempted.
\<close>

theorem send_without_publish_counterexample:
  "length (relays demo_env) = 2 \<and>
   sendNip17Dm demo_env demo_createWraps demo_outcome ''nobody'' ''hi'' =
     Inl ''invalid public key''"
  by (simp add: demo_env_def sendNip17Dm_def demo_createWraps_def is_hex64_def)

text \<open>
  C5, as amended. When the two wraps are made without error, a send does not throw,
  whatever the outcome of the publishes; it publishes the wrap for the recipient to every
  relay and then the wrap for the sender to every relay, 2 * R publishes for R relays.
  The older copy of the bus publishes in the same way.
\<close>

theorem send_publishes_twice_per_relay:
  assumes "createWraps toPubkey text = Inr (w1, w2)"
  shows "\<not> isl (sendNip17Dm env createWraps outcome toPubkey text) \<and>
         publishes (projr (sendNip17Dm env createWraps outcome toPubkey text)) =
           map (\<lambda>relay. (relay, w1)) (relays env) @ map (\<lambda>relay. (relay, w2)) (relays env) \<and>
         length (publishes (projr (sendNip17Dm env createWraps outcome toPubkey text))) =
           2 * length (relays env) \<and>
         \<not> isl (sendNip17Dm_legacy env createWraps outcome toPubkey text) \<and>
         publishes (projr (sendNip17Dm_legacy env createWraps outcome toPubkey text)) =
           map (\<lambda>relay. (relay, w1)) (relays env) @ map (\<lambda>relay. (relay, w2)) (relays env)"
proof -
  note eq = sendNip17Dm_eq [of createWraps toPubkey "text" w1 w2 env outcome, OF assms]
  note leq = sendNip17Dm_legacy_eq [of createWraps toPubkey "text" w1 w2 env outcome, OF assms]
  have pubs: "publishes (projr (sendNip17Dm env createWraps outcome toPubkey text)) =
                publishAttempts (relays env) w1 w2"
    by (simp add: eq publishes_Publish)
  have lpubs: "publishes (projr (sendNip17Dm_legacy env createWraps outcome toPubkey text)) =
                publishAttempts (relays env) w1 w2"
    by (simp add: leq publishes_append publishes_Publish publishes_report)
  have lenas: "length (publishAttempts (relays env) w1 w2) = 2 * length (relays env)"
    by (simp add: publishAttempts_eq)
  show ?thesis
  proof (intro conjI)
    show "\<not> isl (sendNip17Dm env createWraps outcome toPubkey text)"
      by (simp add: eq)
    show "publishes (projr (sendNip17Dm env createWraps outcome toPubkey text)) =
           map (\<lambda>relay. (relay, w1)) (relays env) @ map (\<lambda>relay. (relay, w2)) (relays env)"
      by (simp only: pubs publishAttempts_eq)
    show "length (publishes (projr (sendNip17Dm env createWraps outcome toPubkey text))) =
           2 * length (relays env)"
      by (simp only: pubs lenas)
    show "\<not> isl (sendNip17Dm_legacy env createWraps outcome toPubkey text)"
      by (simp add: leq)
    show "publishes (projr (sendNip17Dm_legacy env createWraps outcome toPubkey text)) =
           map (\<lambda>relay. (relay, w1)) (relays env) @ map (\<lambda>relay. (relay, w2)) (relays env)"
      by (simp only: lpubs publishAttempts_eq)
  qed
qed

lemma bob_key_hex: "is_hex64 bob_key"
  by code_simp

theorem send_publishes_twice_per_relay_witness:
  "demo_createWraps bob_key ''hi'' = Inr (wrap ''w1'' 1699900000, wrap ''w2'' 1699950000) \<and>
   \<not> isl (sendNip17Dm demo_env demo_createWraps demo_outcome bob_key ''hi'') \<and>
   publishes (projr (sendNip17Dm demo_env demo_createWraps demo_outcome bob_key ''hi'')) =
     [(''wss://relay.damus.io'', wrap ''w1'' 1699900000), (''wss://nos.lol'', wrap ''w1'' 1699900000),
      (''wss://relay.damus.io'', wrap ''w2'' 1699950000), (''wss://nos.lol'', wrap ''w2'' 1699950000)] \<and>
   publishes (projr (sendNip17Dm_legacy demo_env demo_createWraps demo_outcome bob_key ''hi'')) =
     [(''wss://relay.damus.io'', wrap ''w1'' 1699900000), (''wss://nos.lol'', wrap ''w1'' 1699900000),
      (''wss://relay.damus.io'', wrap ''w2'' 1699950000), (''wss://nos.lol'', wrap ''w2'' 1699950000)]"
proof -
  have c: "demo_createWraps bob_key ''hi'' = Inr (wrap ''w1'' 1699900000, wrap ''w2'' 1699950000)"
    by (simp add: demo_createWraps_def bob_key_hex)
  have r: "relays demo_env = [''wss://relay.damus.io'', ''wss://nos.lol'']"
    by (simp add: demo_env_def)
  from send_publishes_twice_per_relay
         [of demo_createWraps bob_key "''hi''" "wrap ''w1'' 1699900000" "wrap ''w2'' 1699950000"
             demo_env demo_outcome, OF c] c
  show ?thesis
    by (simp add: r)
qed

text \<open>
  What the source does about failed publishes. \<^verbatim>\<open>Promise.allSettled\<close> is given the arrays
  that \<^verbatim>\<open>pool.publish\<close> returns, not the promises in them, so every result is fulfilled and
  the list of failures is empty: the send reports nothing, also when every publish to a
  relay is rejected. The older copy reports its count summary, with no failure in it.
\<close>

lemma publish_failures_not_reported:
  assumes "createWraps toPubkey text = Inr (w1, w2)"
  shows "errors (projr (sendNip17Dm env createWraps outcome toPubkey text)) = [] \<and>
         errors (projr (sendNip17Dm_legacy env createWraps outcome toPubkey text)) =
           (if onError_given env
            then [(''Publish results: '' @ show_nat (2 * length (relays env)) @ '' total, '' @
                   show_nat (2 * length (relays env)) @ '' success, '' @ show_nat 0 @ '' failed'',
                   ''publish'')]
            else [])"
  by (simp add: sendNip17Dm_eq [of createWraps toPubkey "text" w1 w2 env outcome, OF assms]
        sendNip17Dm_legacy_eq [of createWraps toPubkey "text" w1 w2 env outcome, OF assms]
        errors_append errors_Publish errors_report)

lemma rejected_publishes_example:
  "pool_publish (demo_outcome 1) [''wss://nos.lol''] (wrap ''w1'' 1699900000) =
     [RejectedWith ''timeout''] \<and>
   errors (projr (sendNip17Dm demo_env demo_createWraps demo_outcome bob_key ''hi'')) = []"
proof -
  have c: "demo_createWraps bob_key ''hi'' = Inr (wrap ''w1'' 1699900000, wrap ''w2'' 1699950000)"
    by (simp add: demo_createWraps_def bob_key_hex)
  show ?thesis
    using publish_failures_not_reported
            [of demo_createWraps bob_key "''hi''" "wrap ''w1'' 1699900000"
                "wrap ''w2'' 1699950000" demo_env demo_outcome, OF c]
    by (simp add: pool_publish_def demo_outcome_def)
qed

section \<open>The state file and the cap on the recent identifiers\<close>

lemma note_key_forms:
  "gwKey (note_event n) = ''gw:'' @ note_id n"
  "rumorId (note_rumor n) = ''rumor:'' @ replicate (Suc n) CHR ''n''"
  by (simp_all add: gwKey_def note_event_def wrap_def rumorId_def note_rumor_def chat_def)

lemma note_key_inj:
  "gwKey (note_event m) = gwKey (note_event n) \<longleftrightarrow> m = n"
  "rumorId (note_rumor m) = rumorId (note_rumor n) \<longleftrightarrow> m = n"
  "gwKey (note_event m) \<noteq> rumorId (note_rumor n)"
proof -
  show "gwKey (note_event m) = gwKey (note_event n) \<longleftrightarrow> m = n"
    unfolding note_key_forms note_id_def by (metis length_replicate nat.inject same_append_eq)
  show "rumorId (note_rumor m) = rumorId (note_rumor n) \<longleftrightarrow> m = n"
    unfolding note_key_forms by (metis length_replicate nat.inject same_append_eq)
  show "gwKey (note_event m) \<noteq> rumorId (note_rumor n)"
    unfolding note_key_forms by simp
qed

lemma note_keys_mem:
  "x \<in> set (note_keys n) \<Longrightarrow>
   \<exists>j<n. x = gwKey (note_event j) \<or> x = rumorId (note_rumor j)"
proof (induction n)
  case 0
  then show ?case by simp
next
  case (Suc n)
  then show ?case by (auto simp add: less_Suc_eq)
qed

lemma note_keys_fresh:
  "gwKey (note_event n) \<notin> set (note_keys n)"
  "rumorId (note_rumor n) \<notin> set (note_keys n)"
proof -
  show "gwKey (note_event n) \<notin> set (note_keys n)"
  proof
    assume "gwKey (note_event n) \<in> set (note_keys n)"
    from note_keys_mem [OF this] show False
      using note_key_inj(1) [of n] note_key_inj(3) [of n] by auto
  qed
  show "rumorId (note_rumor n) \<notin> set (note_keys n)"
  proof
    assume "rumorId (note_rumor n) \<in> set (note_keys n)"
    from note_keys_mem [OF this] show False
      using note_key_inj(2) [of n] note_key_inj(3) [of _ n] by (metis nat_neq_iff)
  qed
qed

lemma note_keys_length: "length (note_keys n) = 2 * n"
  by (induction n) simp_all

lemma note_unwrap: "unwrapEvent demo_env (note_event n) = Inr (note_rumor n)"
  by (simp add: demo_env_def demo_unwrap_def note_event_def wrap_def note_id_def list_all_iff)

lemma note_rumor_fields:
  "rumor_kind (note_rumor n) = 14" "rumor_pubkey (note_rumor n) \<noteq> pk demo_env"
  "to_number (rumor_created_at (note_rumor n)) = Num (1700000001 + int n)"
  by (simp_all add: note_rumor_def chat_def demo_env_def seconds_def)

lemma note_event_fields:
  "event_kind (note_event n) = 1059" "event_id (note_event n) = note_id n"
  "event_created_at (note_event n) = 1699900000"
  by (simp_all add: note_event_def wrap_def)

text \<open>
  A message of the series is delivered to a bus that has not seen it, holds a watermark
  older than the message and has no invocation waiting; its callback resolves.
\<close>

lemma receive_note:
  assumes "gwKey (note_event n) \<notin> set (globalSeen s)"
    and "rumorId (note_rumor n) \<notin> set (globalSeen s)"
    and "length (globalSeen s) + 2 \<le> GLOBAL_SEEN_MAX"
    and "var_lastRumorAt s = Num w" and "w < 1700000001 + int n"
    and "pending s = []"
  shows "run demo_env [Deliver (note_event n), Settle 0 Resolved] s =
           (scheduleStatePersist 1699900000 (note_id n)
              (s\<lparr>globalSeen := globalSeen s @ [gwKey (note_event n), rumorId (note_rumor n)],
                 pending := [],
                 var_lastRumorAt := Num (1700000001 + int n)\<rparr>),
            [OnMessage (note_event n) (note_rumor n)])"
proof -
  let ?ev = "note_event n" and ?r = "note_rumor n"
  from assms(3) have r1: "length (globalSeen s) < GLOBAL_SEEN_MAX" by simp
  from assms(3) have r2: "length (globalSeen s @ [gwKey ?ev]) < GLOBAL_SEEN_MAX" by simp
  have d1: "snd (globalDedup (gwKey ?ev) (globalSeen s)) = globalSeen s @ [gwKey ?ev]"
    using assms(1) by (simp add: globalDedup_room [OF r1])
  have f2: "rumorId ?r \<notin> set (globalSeen s @ [gwKey ?ev])"
    using assms(2) note_key_inj(3) [of n n] by auto
  have d2: "snd (globalDedup (rumorId ?r) (globalSeen s @ [gwKey ?ev])) =
              globalSeen s @ [gwKey ?ev, rumorId ?r]"
    using f2 by (simp add: globalDedup_room [OF r2])
  have guard: "\<not> (js_gt (var_lastRumorAt s) (Num 0) \<and>
                   js_le (to_number (rumor_created_at ?r)) (var_lastRumorAt s))"
    using assms(4,5) by (simp add: note_rumor_fields js_le_def)
  have h: "handleEvent demo_env ?ev s =
             (s\<lparr>globalSeen := globalSeen s @ [gwKey ?ev, rumorId ?r],
                 pending := [(?ev, ?r)]\<rparr>, [OnMessage ?ev ?r])"
    using assms(1) f2 guard
    by (simp add: handleEvent_unfold note_unwrap note_rumor_fields note_event_fields d1 d2 assms(6))
  have m: "Math_max (Num w) (Num (1700000001 + int n)) = Num (1700000001 + int n)"
    using assms(5) by (simp add: Math_max_def)
  have res: "resumeEvent demo_env 0 Resolved
               (s\<lparr>globalSeen := globalSeen s @ [gwKey ?ev, rumorId ?r], pending := [(?ev, ?r)]\<rparr>) =
             (scheduleStatePersist 1699900000 (note_id n)
                (s\<lparr>globalSeen := globalSeen s @ [gwKey ?ev, rumorId ?r],
                   pending := [],
                   var_lastRumorAt := Num (1700000001 + int n)\<rparr>), [])"
    by (simp add: resumeEvent_def note_event_fields note_rumor_fields assms(4) m)
  show ?thesis
    by (simp only: run_Cons run.simps(1) step.simps h res fst_conv snd_conv append_Nil2
          append_Cons append_Nil)
qed

lemma note_state_0: "note_state 0 = fresh_bus"
  by (simp add: note_state_def note_record_def fresh_bus_def)

lemma handled_round:
  assumes "n < 5000"
  shows "run demo_env (handled n) (note_state n) =
           (note_state (Suc n), [OnMessage (note_event n) (note_rumor n)])"
proof -
  let ?s = "note_state n"
  have f: "gwKey (note_event n) \<notin> set (globalSeen ?s)" "rumorId (note_rumor n) \<notin> set (globalSeen ?s)"
    by (simp_all add: note_state_def note_keys_fresh)
  have room: "length (globalSeen ?s) + 2 \<le> GLOBAL_SEEN_MAX"
    using assms by (simp add: note_state_def note_keys_length GLOBAL_SEEN_MAX_def)
  have w: "var_lastRumorAt ?s = Num (if n = 0 then 0 else 1700000000 + int n)"
    by (simp add: note_state_def)
  have lt: "(if n = 0 then 0 else 1700000000 + int n) < 1700000001 + int n" by simp
  have p: "pending ?s = []" by (simp add: note_state_def)
  note rn = receive_note [OF f room w lt p]
  let ?s1 = "scheduleStatePersist 1699900000 (note_id n)
              (?s\<lparr>globalSeen := globalSeen ?s @ [gwKey (note_event n), rumorId (note_rumor n)],
                  pending := [],
                  var_lastRumorAt := Num (1700000001 + int n)\<rparr>)"
  have ids: "map note_id [0..<n] @ [note_id n] = map note_id [0..<Suc n]" by simp
  have s1: "?s1 =
      \<lparr>globalSeen = note_keys (Suc n), var_lastProcessedAt = 1700000000,
       var_lastRumorAt = Num (1700000001 + int n),
       arrays = [map note_id [0..<Suc n]], var_recentEventIds = 0,
       var_gatewayStartedAt = 1700000000,
       pending = [], awaiting_mkdir =
         [\<lparr>wq_lastProcessedAt = 1700000000, wq_gatewayStartedAt = 1700000000,
           wq_recentEventIds = 0, wq_lastRumorAt = Num (1700000001 + int n)\<rparr>],
       writing = [], disk = Stored (note_record n)\<rparr>"
    using assms
    by (simp add: scheduleStatePersist_def persistStateNow_def note_state_def array_at_def
          MAX_PERSISTED_EVENT_IDS_def Let_def)
  have rest: "run demo_env [MkdirDone 0 None, WriteDone 0 Landed] ?s1 = (note_state (Suc n), [])"
    unfolding s1
    by (simp add: mkdirDone_def writeDone_def array_at_def stringify_number_def note_state_def
          note_record_def Let_def)
  have split: "handled n = [Deliver (note_event n), Settle 0 Resolved] @
                 [MkdirDone 0 None, WriteDone 0 Landed]"
    by (simp add: handled_def)
  show ?thesis
    unfolding split
    by (simp only: run_append rn rest fst_conv snd_conv append_Nil2)
qed

lemma run_handled_upto:
  "k \<le> 5000 \<Longrightarrow>
   run demo_env (handled_upto k) fresh_bus =
     (note_state k, map (\<lambda>j. OnMessage (note_event j) (note_rumor j)) [0..<k])"
proof (induction k)
  case 0
  show ?case by (simp add: note_state_0)
next
  case (Suc k)
  then have ih: "run demo_env (handled_upto k) fresh_bus =
     (note_state k, map (\<lambda>j. OnMessage (note_event j) (note_rumor j)) [0..<k])"
    and lt: "k < 5000"
    by simp_all
  show ?case
    by (simp only: handled_upto.simps run_append ih handled_round [OF lt] fst_conv snd_conv
          upt_Suc_append [OF le0] map_append list.map)
qed

lemma ids_after_race:
  "drop 1 (map note_id [0..<5000] @ [note_id 5000]) @ [note_id 5001] =
   drop 1 (map note_id [0..<5002])"
proof -
  have "[0..<5002] = [0..<5000] @ [5000..<5002 :: nat]"
    using upt_add_eq_append [of 0 5000 2] by simp
  moreover have "[5000..<5002] = [5000, 5001 :: nat]"
    by simp
  ultimately have "[0..<5002] = [0..<5000] @ [5000, 5001 :: nat]" by simp
  then show ?thesis by simp
qed

text \<open>
  The two messages that follow the first 5000. When the callback of the first resolves,
  the array holds 5001 identifiers, the variable is pointed to a new array of the last
  5000, and the state write that is started refers to that new array. When the callback of
  the second resolves, its identifier is pushed onto the same array before the variable
  is pointed to the next slice. The first write then serialises the array it refers to.
\<close>

lemma race_state:
  "fst (run demo_env two_in_a_row (note_state 5000)) =
     \<lparr>globalSeen = note_keys 5002, var_lastProcessedAt = 1700000000,
      var_lastRumorAt = Num 1700005002,
      arrays = [map note_id [0..<5000] @ [note_id 5000],
                drop 1 (map note_id [0..<5000] @ [note_id 5000]) @ [note_id 5001],
                drop 1 (drop 1 (map note_id [0..<5000] @ [note_id 5000]) @ [note_id 5001])],
      var_recentEventIds = 2,
      var_gatewayStartedAt = 1700000000,
      pending = [],
      awaiting_mkdir =
        [\<lparr>wq_lastProcessedAt = 1700000000, wq_gatewayStartedAt = 1700000000,
          wq_recentEventIds = 2, wq_lastRumorAt = Num 1700005002\<rparr>],
      writing = [],
      disk = Stored \<lparr>lastProcessedAt = 1700000000, gatewayStartedAt = 1700000000,
                      recentEventIds =
                        drop 1 (map note_id [0..<5000] @ [note_id 5000]) @ [note_id 5001],
                      recentFingerprints = None, lastRumorAt = Some 1700005001\<rparr>\<rparr>"
proof -
  let ?A0 = "map note_id [0..<5000]"
  let ?P0 = "?A0 @ [note_id 5000]"
  let ?P1 = "drop 1 ?P0 @ [note_id 5001]"
  let ?s0 = "note_state 5000"
  let ?W1 = "\<lparr>wq_lastProcessedAt = 1700000000, wq_gatewayStartedAt = 1700000000,
              wq_recentEventIds = 1, wq_lastRumorAt = Num 1700005001\<rparr>"
  let ?W2 = "\<lparr>wq_lastProcessedAt = 1700000000, wq_gatewayStartedAt = 1700000000,
              wq_recentEventIds = 2, wq_lastRumorAt = Num 1700005002\<rparr>"
  let ?s1 = "\<lparr>globalSeen = note_keys 5001, var_lastProcessedAt = 1700000000,
              var_lastRumorAt = Num 1700005001,
              arrays = [?P0, drop 1 ?P0], var_recentEventIds = 1,
              var_gatewayStartedAt = 1700000000,
              pending = [], awaiting_mkdir = [?W1], writing = [],
              disk = Stored (note_record 5000)\<rparr>"
  let ?s2 = "\<lparr>globalSeen = note_keys 5002, var_lastProcessedAt = 1700000000,
              var_lastRumorAt = Num 1700005002,
              arrays = [?P0, ?P1, drop 1 ?P1], var_recentEventIds = 2,
              var_gatewayStartedAt = 1700000000,
              pending = [], awaiting_mkdir = [?W1, ?W2], writing = [],
              disk = Stored (note_record 5000)\<rparr>"
  have k1: "note_keys 5001 = note_keys 5000 @ [gwKey (note_event 5000), rumorId (note_rumor 5000)]"
    using note_keys.simps(2) [of 5000] by simp
  have k2: "note_keys 5002 = note_keys 5001 @ [gwKey (note_event 5001), rumorId (note_rumor 5001)]"
    using note_keys.simps(2) [of 5001] by simp
  have a: "run demo_env [Deliver (note_event 5000), Settle 0 Resolved] ?s0 =
             (?s1, [OnMessage (note_event 5000) (note_rumor 5000)])"
  proof -
    have f: "gwKey (note_event 5000) \<notin> set (globalSeen ?s0)"
      "rumorId (note_rumor 5000) \<notin> set (globalSeen ?s0)"
      by (simp_all add: note_state_def note_keys_fresh)
    have room: "length (globalSeen ?s0) + 2 \<le> GLOBAL_SEEN_MAX"
      by (simp add: note_state_def note_keys_length GLOBAL_SEEN_MAX_def)
    have w: "var_lastRumorAt ?s0 = Num 1700005000" by (simp add: note_state_def)
    have lt: "(1700005000 :: int) < 1700000001 + int 5000" by simp
    have p: "pending ?s0 = []" by (simp add: note_state_def)
    have "scheduleStatePersist 1699900000 (note_id 5000)
            (?s0\<lparr>globalSeen := globalSeen ?s0 @
                     [gwKey (note_event 5000), rumorId (note_rumor 5000)],
                  pending := [],
                  var_lastRumorAt := Num (1700000001 + int 5000)\<rparr>) = ?s1"
      by (simp add: scheduleStatePersist_def persistStateNow_def note_state_def array_at_def
            MAX_PERSISTED_EVENT_IDS_def slice_last_def Let_def k1)
    with receive_note [OF f room w lt p] show ?thesis by simp
  qed
  have b: "run demo_env [Deliver (note_event 5001), Settle 0 Resolved] ?s1 =
             (?s2, [OnMessage (note_event 5001) (note_rumor 5001)])"
  proof -
    have f: "gwKey (note_event 5001) \<notin> set (globalSeen ?s1)"
      "rumorId (note_rumor 5001) \<notin> set (globalSeen ?s1)"
      by (simp_all add: note_keys_fresh)
    have room: "length (globalSeen ?s1) + 2 \<le> GLOBAL_SEEN_MAX"
      by (simp add: note_keys_length GLOBAL_SEEN_MAX_def)
    have w: "var_lastRumorAt ?s1 = Num 1700005001" by simp
    have lt: "(1700005001 :: int) < 1700000001 + int 5001" by simp
    have p: "pending ?s1 = []" by simp
    have "scheduleStatePersist 1699900000 (note_id 5001)
            (?s1\<lparr>globalSeen := globalSeen ?s1 @
                     [gwKey (note_event 5001), rumorId (note_rumor 5001)],
                  pending := [],
                  var_lastRumorAt := Num (1700000001 + int 5001)\<rparr>) = ?s2"
      by (simp add: scheduleStatePersist_def persistStateNow_def array_at_def
            MAX_PERSISTED_EVENT_IDS_def slice_last_def Let_def k2)
    with receive_note [OF f room w lt p] show ?thesis by simp
  qed
  have c: "fst (run demo_env [MkdirDone 0 None, WriteDone 0 Landed] ?s2) =
             ?s2\<lparr>awaiting_mkdir := [?W2],
                  disk := Stored \<lparr>lastProcessedAt = 1700000000, gatewayStartedAt = 1700000000,
                                   recentEventIds = ?P1, recentFingerprints = None,
                                   lastRumorAt = Some 1700005001\<rparr>\<rparr>"
    by (simp add: mkdirDone_def writeDone_def array_at_def stringify_number_def Let_def)
  have split: "two_in_a_row =
      [Deliver (note_event 5000), Settle 0 Resolved] @
      ([Deliver (note_event 5001), Settle 0 Resolved] @ [MkdirDone 0 None, WriteDone 0 Landed])"
    by (simp add: two_in_a_row_def)
  have "fst (run demo_env two_in_a_row ?s0) =
          fst (run demo_env [MkdirDone 0 None, WriteDone 0 Landed] ?s2)"
    unfolding split by (simp only: run_append a b fst_conv)
  then show ?thesis unfolding c by simp
qed

text \<open>
  C7. The state file can hold more than 5000 identifiers. A bus that starts without a
  state file handles 5000 messages to the end, and then two more whose callbacks resolve
  one after the other, before the state write that follows the first has passed
  \<^verbatim>\<open>mkdir\<close>: when that write lands, the file holds 5001 identifiers, while the list in
  memory holds 5000.
\<close>

theorem state_file_exceeds_cap:
  "startNip17Bus demo_env 1700000000 None None [] =
     Started fresh_bus \<lparr>kinds = [1059], p_tag = [''me''], since = 1699827200\<rparr> \<and>
   callbacks (snd (run demo_env (handled_upto 5000) fresh_bus)) =
     map (\<lambda>j. (note_event j, note_rumor j)) [0..<5000] \<and>
   disk (fst (run demo_env (handled_upto 5000) fresh_bus)) =
     Stored \<lparr>lastProcessedAt = 1700000000, gatewayStartedAt = 1700000000,
             recentEventIds = map note_id [0..<5000], recentFingerprints = None,
             lastRumorAt = Some 1700005000\<rparr> \<and>
   disk (fst (run demo_env (handled_upto 5000 @ two_in_a_row) fresh_bus)) =
     Stored \<lparr>lastProcessedAt = 1700000000, gatewayStartedAt = 1700000000,
             recentEventIds = drop 1 (map note_id [0..<5002]), recentFingerprints = None,
             lastRumorAt = Some 1700005001\<rparr> \<and>
   length (drop 1 (map note_id [0..<5002])) = 5001 \<and>
   MAX_PERSISTED_EVENT_IDS = 5000 \<and>
   length (array_at (arrays (fst (run demo_env (handled_upto 5000 @ two_in_a_row) fresh_bus)))
             (var_recentEventIds (fst (run demo_env (handled_upto 5000 @ two_in_a_row) fresh_bus)))) =
     5000"
proof -
  have r: "run demo_env (handled_upto 5000) fresh_bus =
             (note_state 5000, map (\<lambda>j. OnMessage (note_event j) (note_rumor j)) [0..<5000])"
    by (rule run_handled_upto) simp
  have cb: "callbacks (map (\<lambda>j. OnMessage (note_event j) (note_rumor j)) xs) =
              map (\<lambda>j. (note_event j, note_rumor j)) xs" for xs
    by (induction xs) simp_all
  have f: "fst (run demo_env (handled_upto 5000 @ two_in_a_row) fresh_bus) =
             fst (run demo_env two_in_a_row (note_state 5000))"
    by (simp only: run_append r fst_conv)
  show ?thesis
  proof (intro conjI)
    show "startNip17Bus demo_env 1700000000 None None [] =
            Started fresh_bus \<lparr>kinds = [1059], p_tag = [''me''], since = 1699827200\<rparr>"
      by (rule start_fresh)
    show "callbacks (snd (run demo_env (handled_upto 5000) fresh_bus)) =
            map (\<lambda>j. (note_event j, note_rumor j)) [0..<5000]"
      unfolding r by (simp only: snd_conv cb)
    show "disk (fst (run demo_env (handled_upto 5000) fresh_bus)) =
            Stored \<lparr>lastProcessedAt = 1700000000, gatewayStartedAt = 1700000000,
                    recentEventIds = map note_id [0..<5000], recentFingerprints = None,
                    lastRumorAt = Some 1700005000\<rparr>"
      unfolding r by (simp add: note_state_def note_record_def)
    show "disk (fst (run demo_env (handled_upto 5000 @ two_in_a_row) fresh_bus)) =
            Stored \<lparr>lastProcessedAt = 1700000000, gatewayStartedAt = 1700000000,
                    recentEventIds = drop 1 (map note_id [0..<5002]), recentFingerprints = None,
                    lastRumorAt = Some 1700005001\<rparr>"
      unfolding f race_state by (simp only: bus.simps ids_after_race)
    show "length (drop 1 (map note_id [0..<5002])) = 5001" by simp
    show "MAX_PERSISTED_EVENT_IDS = 5000" by (simp add: MAX_PERSISTED_EVENT_IDS_def)
    show "length (array_at (arrays (fst (run demo_env (handled_upto 5000 @ two_in_a_row) fresh_bus)))
             (var_recentEventIds (fst (run demo_env (handled_upto 5000 @ two_in_a_row) fresh_bus)))) =
          5000"
      unfolding f race_state by (simp add: array_at_def)
  qed
qed

section \<open>The key codec on a key\<close>

text \<open>
  The key is the example of NIP-19: the 32 bytes, and the same bits in 52 words of 5 bits.
\<close>

lemma key_bytes:
  "map unat (hexToBytes bob_key) = bob_bytes"
  by code_simp

lemma key_hex:
  "bytes_to_hex (map of_nat bob_bytes) = bob_key"
  by code_simp

lemma key_words:
  "convertRadix2 8 5 True bob_bytes = Inr bob_words"
  by (simp add: convertRadix2_def emit.simps left_over.simps bob_bytes_def bob_words_def)

lemma words_key:
  "convertRadix2 5 8 False bob_words = Inr bob_bytes"
  by (simp add: convertRadix2_def emit.simps left_over.simps bob_bytes_def bob_words_def)

lemma key_checksum_value:
  "bechChecksumValue ''npub'' bob_words = 153872858"
  by (simp add: bechChecksumValue_def bech32Polymod_def POLYMOD_GENERATORS_def upt_rec
        bob_words_def)

lemma key_checksum:
  "bechChecksum ''npub'' bob_words = ''yjh6w6''"
  by (simp add: bechChecksum_def key_checksum_value BECH_ALPHABET_def upt_rec)

lemma key_letters:
  "map (\<lambda>w. BECH_ALPHABET ! w) bob_words =
     ''80cvv07tjdrrgpa0j7j7tmnyl2yr6yr7l8j4s3evf6u64th6gkws''"
  by code_simp

lemma key_is_hex: "\<not> odd (length bob_key) \<and> list_all is_hex_char bob_key"
  by code_simp

lemma npubEncode_key: "nip19_npubEncode bob_key = Inr npub_key"
  using key_is_hex
  by (simp add: nip19_npubEncode_def key_bytes key_words bech32_encode_def key_checksum
        key_letters npub_key_def)

lemma npub_shape:
  "toLowerCase npub_key = npub_key \<and> lastIndexOf CHR ''1'' npub_key = Some 4 \<and>
   take 4 npub_key = ''npub'' \<and> drop 57 npub_key = ''yjh6w6'' \<and> length npub_key = 63 \<and>
   list_all (\<lambda>c. 33 \<le> (of_char c :: nat) \<and> (of_char c :: nat) \<le> 126) ''npub''"
  by code_simp

lemma npub_letters:
  "alphabet_decode (drop 5 npub_key) = Some (bob_words @ [4, 18, 23, 26, 14, 26])"
  by code_simp

lemma bech32_decode_npub:
  "bech32_decode npub_key = Inr (''npub'', bob_words)"
  using npub_shape
  by (simp add: bech32_decode_def Let_def npub_letters key_checksum)

lemma nip19_decode_npub:
  "nip19_decode npub_key = Inr \<lparr>decoded_type = ''npub'', decoded_data = Text bob_key\<rparr>"
  by (simp add: nip19_decode_def bech32_decode_npub words_key key_hex)

lemma keys_trimmed:
  "trim npub_key = npub_key \<and> startsWith npub_key ''npub1'' \<and> trim bob_key = bob_key \<and>
   \<not> startsWith bob_key ''npub1'' \<and> is_hex64 bob_key \<and> toLowerCase bob_key = bob_key"
  by code_simp

lemma key_as_text:
  "data_to_hex (Text bob_key) =
     ''030b0f000c06030f0c0b09030406030400070a0f09070a050e050e0e06040f0a0808030d0100070e0f090e0505080407020c040e0b090a0a0a0e0f0a0405090d''"
  by code_simp

lemma key_as_bytes: "data_to_hex (Bytes (hexToBytes bob_key)) = bob_key"
  by code_simp

lemma normalize_hex_key: "normalizePubkey bob_key = Inr bob_key"
  using keys_trimmed by (simp add: normalizePubkey_def)

lemma normalize_npub_key:
  "normalizePubkey npub_key =
     Inr ''030b0f000c06030f0c0b09030406030400070a0f09070a050e050e0e06040f0a0808030d0100070e0f090e0505080407020c040e0b090a0a0a0e0f0a0405090d''"
  using keys_trimmed by (simp add: normalizePubkey_def nip19_decode_npub key_as_text)

lemma encode_padded_key:
  "pubkeyToNpub
     ''030b0f000c06030f0c0b09030406030400070a0f09070a050e050e0e06040f0a0808030d0100070e0f090e0505080407020c040e0b090a0a0a0e0f0a0405090d'' =
   Inl ''Pubkey must be 64 hex chars or npub format''"
  by code_simp

text \<open>
  C9. The round trip of the specification does not hold in the code. For the hex key of
  the example, \<^verbatim>\<open>normalizePubkey\<close> gives the key, \<^verbatim>\<open>pubkeyToNpub\<close> gives its npub
  encoding, and \<^verbatim>\<open>normalizePubkey\<close> of that encoding gives 128 characters, every hex digit
  of the key with a zero before it, because \<^verbatim>\<open>nip19.decode\<close> hands out the key of an npub
  as a string of hex digits and the source treats it as an array of bytes. Starting from
  the npub encoding, the first \<^verbatim>\<open>normalizePubkey\<close> gives the 128 characters, which
  \<^verbatim>\<open>pubkeyToNpub\<close> rejects.
\<close>

theorem pubkey_round_trip_broken:
  "normalizePubkey bob_key = Inr bob_key \<and>
   pubkeyToNpub bob_key = Inr npub_key \<and>
   normalizePubkey npub_key =
     Inr ''030b0f000c06030f0c0b09030406030400070a0f09070a050e050e0e06040f0a0808030d0100070e0f090e0505080407020c040e0b090a0a0a0e0f0a0405090d'' \<and>
   normalizePubkey npub_key \<noteq> normalizePubkey bob_key \<and>
   pubkeyToNpub
     ''030b0f000c06030f0c0b09030406030400070a0f09070a050e050e0e06040f0a0808030d0100070e0f090e0505080407020c040e0b090a0a0a0e0f0a0405090d'' =
     Inl ''Pubkey must be 64 hex chars or npub format''"
proof (intro conjI)
  show "normalizePubkey bob_key = Inr bob_key" by (rule normalize_hex_key)
  show "pubkeyToNpub bob_key = Inr npub_key"
    by (simp add: pubkeyToNpub_def normalize_hex_key npubEncode_key)
  show "normalizePubkey npub_key =
     Inr ''030b0f000c06030f0c0b09030406030400070a0f09070a050e050e0e06040f0a0808030d0100070e0f090e0505080407020c040e0b090a0a0a0e0f0a0405090d''"
    by (rule normalize_npub_key)
  show "normalizePubkey npub_key \<noteq> normalizePubkey bob_key"
    unfolding normalize_npub_key normalize_hex_key by (simp add: bob_key_def)
  show "pubkeyToNpub
     ''030b0f000c06030f0c0b09030406030400070a0f09070a050e050e0e06040f0a0808030d0100070e0f090e0505080407020c040e0b090a0a0a0e0f0a0405090d'' =
     Inl ''Pubkey must be 64 hex chars or npub format''"
    by (rule encode_padded_key)
qed

end
